theory Spec2Isabelle
  imports Complex_Main "HOL-Library.Signed_Division"
begin

section \<open>Element Basket: entity update, collision, particle pools and game state\<close>

text \<open>
  A shallow embedding of the simulation core of \<^verbatim>\<open>src/Playable/main.cpp\<close>.

  Conventions of the embedding:
  \<^item> \<^verbatim>\<open>float\<close> and \<^verbatim>\<open>double\<close> values are real numbers, and float literals are the
    decimal they denote; rounding is outside the model.
  \<^item> \<^verbatim>\<open>int score\<close> is an unbounded integer: a frame changes it by at most five per live
    orb and play stops outside the interval (-5, 100), so it stays far inside 32 bits.
  \<^item> The unscoped enum \<^verbatim>\<open>ElementType\<close> is the integer behind it, so that an out-of-range
    value can be written down; \<open>valid_type\<close> says that it is one of the four enumerators.
  \<^item> Undefined behaviour of the source (calling through a null pointer, indexing the
    vector of pools out of range) is the result \<open>None\<close>.
  \<^item> Every random engine is a stream of raw engine outputs \<open>nat \<Rightarrow> nat\<close>; a function that
    draws from it returns the rest of the stream. All engines of one frame read one
    stream, which covers every sequence of draws the freshly seeded engines can produce.
  \<^item> OpenGL handles, textures, console output and sound playback are left out.
\<close>

subsection \<open>Vectors, element types, random draws\<close>

type_synonym vec3 = "real \<times> real \<times> real"
type_synonym vec4 = "real \<times> real \<times> real \<times> real"

fun vadd :: "vec3 \<Rightarrow> vec3 \<Rightarrow> vec3" where
  "vadd (a, b, c) (x, y, z) = (a + x, b + y, c + z)"

fun vscale :: "vec3 \<Rightarrow> real \<Rightarrow> vec3" where
  "vscale (a, b, c) k = (a * k, b * k, c * k)"

type_synonym ElementType = int

abbreviation (input) EARTH :: ElementType where "EARTH \<equiv> 0"
abbreviation (input) WATER :: ElementType where "WATER \<equiv> 1"
abbreviation (input) FIRE :: ElementType where "FIRE \<equiv> 2"
abbreviation (input) AIR :: ElementType where "AIR \<equiv> 3"
abbreviation (input) NUM_ELEMENT_TYPES :: int where "NUM_ELEMENT_TYPES \<equiv> 4"

definition valid_type :: "ElementType \<Rightarrow> bool" where
  "valid_type t = (0 \<le> t \<and> t < NUM_ELEMENT_TYPES)"

datatype GameState = RUNNING | GAME_OVER_WIN | GAME_OVER_LOSE

type_synonym gen = "nat \<Rightarrow> nat"

definition drop_gen :: "nat \<Rightarrow> gen \<Rightarrow> gen" where
  "drop_gen n g = (\<lambda>k. g (k + n))"

text \<open>
  \<^verbatim>\<open>std::uniform_real_distribution<float>(a, b)\<close> applied to one raw 32-bit output, and
  \<^verbatim>\<open>std::uniform_int_distribution<int>(a, b)\<close> likewise. The standard fixes their ranges,
  \<open>[a, b)\<close> and \<open>[a, b]\<close>, not the algorithm; these are the plain affine and modular maps.
\<close>

definition uniform_real :: "real \<Rightarrow> real \<Rightarrow> nat \<Rightarrow> real" where
  "uniform_real a b r = a + (b - a) * (real (r mod 4294967296) / 4294967296)"

definition uniform_int :: "int \<Rightarrow> int \<Rightarrow> nat \<Rightarrow> int" where
  "uniform_int a b r = a + int r mod (b - a + 1)"

subsection \<open>Particles and the particle pool\<close>

record Particle =
  p_position :: vec3
  p_velocity :: vec3
  p_color :: vec4
  life :: real
  duration :: real
  p_size :: real
  active :: bool

definition Particle_new :: Particle where
  "Particle_new = \<lparr> p_position = (0, 0, 0), p_velocity = (0, 0, 0), p_color = (1, 1, 1, 1),
     life = 0, duration = 0, p_size = 1, active = False \<rparr>"

text \<open>
  \<open>maxParticles\<close> is an \<^verbatim>\<open>int\<close> in the source; the constructor resizes the vector to it,
  which throws for a negative value, so a pool that exists has a natural capacity.
  \<open>lastUsedParticle\<close> is an \<^verbatim>\<open>unsigned int\<close> that only ever holds 0 or an index below
  \<open>maxParticles\<close>.
\<close>

record ParticleSystem =
  particles :: "Particle list"
  lastUsedParticle :: nat
  maxParticles :: nat

definition ParticleSystem_new :: "nat \<Rightarrow> ParticleSystem" where
  "ParticleSystem_new n =
     \<lparr> particles = replicate n Particle_new, lastUsedParticle = 0, maxParticles = n \<rparr>"

text \<open>
  One \<^verbatim>\<open>for (unsigned int i = lo; i < hi; ++i) if (!particles[i].active) return i;\<close>
  loop of \<^verbatim>\<open>findUnusedParticle\<close>; \<open>None\<close> when the loop runs to its end.
\<close>

function scan_unused :: "Particle list \<Rightarrow> nat \<Rightarrow> nat \<Rightarrow> nat option" where
  "scan_unused ps lo hi =
     (if lo < hi then (if \<not> active (ps ! lo) then Some lo else scan_unused ps (Suc lo) hi)
      else None)"
  by pat_completeness auto
termination
  by (relation "measure (\<lambda>(ps, lo, hi). hi - lo)") auto

declare scan_unused.simps [simp del]

text \<open>
  \<^verbatim>\<open>findUnusedParticle\<close>: the index found, with \<open>lastUsedParticle\<close> set to it. The source
  returns \<^verbatim>\<open>(unsigned)-1\<close> when every slot is active; no index equals that value, since
  the capacity is an \<^verbatim>\<open>int\<close>, so the sentinel is \<open>None\<close> here.
\<close>

definition findUnusedParticle :: "ParticleSystem \<Rightarrow> nat option \<times> ParticleSystem" where
  "findUnusedParticle s =
     (case scan_unused (particles s) (lastUsedParticle s) (maxParticles s) of
        Some i \<Rightarrow> (Some i, s\<lparr>lastUsedParticle := i\<rparr>)
      | None \<Rightarrow>
          (case scan_unused (particles s) 0 (lastUsedParticle s) of
             Some i \<Rightarrow> (Some i, s\<lparr>lastUsedParticle := i\<rparr>)
           | None \<Rightarrow> (None, s)))"

definition velDist :: "nat \<Rightarrow> real" where "velDist = uniform_real (-1) 1"
definition lifeDist :: "nat \<Rightarrow> real" where "lifeDist = uniform_real 0.5 1.5"
definition sizeDist :: "nat \<Rightarrow> real" where "sizeDist = uniform_real 15 25"

text \<open>
  The body of the \<^verbatim>\<open>if (particleIdx != (unsigned int)-1)\<close> branch of \<^verbatim>\<open>emit\<close>: the slot is
  activated and initialised. Draws are taken in the order the statements are written
  (the two velocity components left to right).
\<close>

definition init_particle :: "vec3 \<Rightarrow> ElementType \<Rightarrow> gen \<Rightarrow> Particle \<Rightarrow> Particle \<times> gen" where
  "init_particle pos t g p =
     (let p1 = p\<lparr> active := True, p_position := pos, duration := lifeDist (g 0), life := 0,
                  p_size := sizeDist (g 1) \<rparr>;
          g1 = drop_gen 2 g
      in if t = EARTH then
           (p1\<lparr> p_color := (0.4, 0.2, 0, 1),
                p_velocity := (velDist (g1 0) * 30, velDist (g1 1) * 30 - 20, 0) \<rparr>, drop_gen 2 g1)
         else if t = WATER then
           (p1\<lparr> p_color := (0.5, 0.7, 1, 1),
                p_velocity := (velDist (g1 0) * 40, velDist (g1 1) * 40 + 10, 0) \<rparr>, drop_gen 2 g1)
         else if t = FIRE then
           (p1\<lparr> p_color := (1, 0.5, 0, 1),
                p_velocity := (velDist (g1 0) * 60, \<bar>velDist (g1 1)\<bar> * 80 + 20, 0) \<rparr>, drop_gen 2 g1)
         else if t = AIR then
           (p1\<lparr> p_color := (0.8, 0.9, 1, 1),
                p_velocity := (velDist (g1 0) * 70, velDist (g1 1) * 70, 0),
                p_size := sizeDist (g1 2) * 1.2 \<rparr>, drop_gen 3 g1)
         else (p1\<lparr> p_color := (1, 1, 1, 1) \<rparr>, g1))"

text \<open>The \<^verbatim>\<open>for (int i = 0; i < count; ++i)\<close> loop of \<^verbatim>\<open>emit\<close>, by iterations left.\<close>

fun emit_loop :: "nat \<Rightarrow> vec3 \<Rightarrow> ElementType \<Rightarrow> gen \<Rightarrow> ParticleSystem \<Rightarrow> ParticleSystem \<times> gen" where
  "emit_loop 0 pos t g s = (s, g)"
| "emit_loop (Suc n) pos t g s =
     (case findUnusedParticle s of
        (Some idx, s1) \<Rightarrow>
          (case init_particle pos t g (particles s1 ! idx) of
             (p, g1) \<Rightarrow> emit_loop n pos t g1 (s1\<lparr>particles := (particles s1)[idx := p]\<rparr>))
      | (None, s1) \<Rightarrow> emit_loop n pos t g s1)"

definition emit :: "vec3 \<Rightarrow> int \<Rightarrow> ElementType \<Rightarrow> gen \<Rightarrow> ParticleSystem \<Rightarrow> ParticleSystem \<times> gen" where
  "emit pos count t g s = emit_loop (nat count) pos t g s"

text \<open>\<^verbatim>\<open>ParticleSystem::update\<close>, one slot and the whole pool (the camera position is unused).\<close>

definition Particle_update :: "real \<Rightarrow> Particle \<Rightarrow> Particle" where
  "Particle_update dt p =
     (if active p then
        (let p1 = p\<lparr>life := life p + dt\<rparr>
         in if life p1 > duration p1 then p1\<lparr>active := False\<rparr>
            else p1\<lparr> p_position := vadd (p_position p1) (vscale (p_velocity p1) dt),
                     p_velocity := vscale (p_velocity p1) (1 - 0.5 * dt) \<rparr>)
      else p)"

definition ParticleSystem_update :: "real \<Rightarrow> ParticleSystem \<Rightarrow> ParticleSystem" where
  "ParticleSystem_update dt s = s\<lparr>particles := map (Particle_update dt) (particles s)\<rparr>"

text \<open>
  What the constructor establishes and every operation keeps: the vector has
  \<open>maxParticles\<close> slots and \<open>lastUsedParticle\<close> is not beyond them, so that the scans read
  inside the vector.
\<close>

definition pool_ok :: "ParticleSystem \<Rightarrow> bool" where
  "pool_ok s = (length (particles s) = maxParticles s \<and> lastUsedParticle s \<le> maxParticles s)"

definition active_count :: "ParticleSystem \<Rightarrow> nat" where
  "active_count s = length (filter active (particles s))"

datatype PoolOp = Emit vec3 int ElementType gen | Advance real

fun apply_op :: "ParticleSystem \<Rightarrow> PoolOp \<Rightarrow> ParticleSystem" where
  "apply_op s (Emit pos count t g) = fst (emit pos count t g s)"
| "apply_op s (Advance dt) = ParticleSystem_update dt s"

definition run_ops :: "PoolOp list \<Rightarrow> ParticleSystem \<Rightarrow> ParticleSystem" where
  "run_ops ops s = foldl apply_op s ops"

subsection \<open>Game objects: basket and orb\<close>

record GameObject =
  position :: vec3
  scale :: vec3
  color :: vec4

record Basket = GameObject +
  currentType :: ElementType
  speed :: real
  b_width :: real
  b_height :: real

record Orb = GameObject +
  otype :: ElementType
  fallSpeed :: real
  o_width :: real
  o_height :: real
  zigzagAmplitude :: real
  zigzagFrequency :: real
  initialX :: real
  zigzagPhaseOffset :: real
  particleEmitTimer :: real
  particleEmitInterval :: real

definition Basket_new :: "real \<Rightarrow> real \<Rightarrow> real \<Rightarrow> real \<Rightarrow> real \<Rightarrow> Basket" where
  "Basket_new x y w h s =
     \<lparr> position = (x, y, 0), scale = (w, h, 1), color = (1, 1, 1, 1),
       currentType = EARTH, speed = s, b_width = w, b_height = h \<rparr>"

definition moveLeft :: "real \<Rightarrow> Basket \<Rightarrow> Basket" where
  "moveLeft dt b = (case position b of (x, y, z) \<Rightarrow> b\<lparr>position := (x - speed b * dt, y, z)\<rparr>)"

definition moveRight :: "real \<Rightarrow> Basket \<Rightarrow> Basket" where
  "moveRight dt b = (case position b of (x, y, z) \<Rightarrow> b\<lparr>position := (x + speed b * dt, y, z)\<rparr>)"

text \<open>
  \<^verbatim>\<open>Basket::changeType\<close>. The operator \<^verbatim>\<open>%\<close> of C++ truncates towards zero: it is \<open>smod\<close>,
  not \<open>mod\<close>.
\<close>

definition changeType :: "int \<Rightarrow> Basket \<Rightarrow> Basket" where
  "changeType direction b =
     b\<lparr>currentType := (currentType b + direction + NUM_ELEMENT_TYPES) smod NUM_ELEMENT_TYPES\<rparr>"

definition b_getLeft :: "Basket \<Rightarrow> real" where
  "b_getLeft b = fst (position b) - b_width b / 2"
definition b_getRight :: "Basket \<Rightarrow> real" where
  "b_getRight b = fst (position b) + b_width b / 2"
definition b_getBottom :: "Basket \<Rightarrow> real" where
  "b_getBottom b = fst (snd (position b)) - b_height b / 2"

definition o_getLeft :: "Orb \<Rightarrow> real" where
  "o_getLeft orb = fst (position orb) - o_width orb / 2"
definition o_getBottom :: "Orb \<Rightarrow> real" where
  "o_getBottom orb = fst (snd (position orb)) - o_height orb / 2"

definition isOffScreen :: "Orb \<Rightarrow> real \<Rightarrow> bool" where
  "isOffScreen orb screenBottomY = (fst (snd (position orb)) + o_height orb / 2 < screenBottomY)"

text \<open>
  The constructor of \<^verbatim>\<open>Orb\<close>; its fresh engine draws amplitude, frequency and phase.
\<close>

definition Orb_new :: "real \<Rightarrow> real \<Rightarrow> real \<Rightarrow> real \<Rightarrow> ElementType \<Rightarrow> real \<Rightarrow> gen \<Rightarrow> Orb \<times> gen" where
  "Orb_new x y w h t s g =
     (\<lparr> position = (x, y, 0), scale = (w, h, 1), color = (1, 1, 1, 1),
        otype = t, fallSpeed = s, o_width = w, o_height = h,
        zigzagAmplitude = uniform_real 20 60 (g 0),
        zigzagFrequency = uniform_real 0.8 5 (g 1),
        initialX = x,
        zigzagPhaseOffset = uniform_real 0 (4 * pi) (g 2),
        particleEmitTimer = 0, particleEmitInterval = 0.05 \<rparr>, drop_gen 3 g)"

subsection \<open>The game\<close>

record Game =
  screenWidth :: int
  screenHeight :: int
  score :: int
  playerBasket :: Basket
  fallingOrbs :: "Orb list"
  particleSystems :: "ParticleSystem list"
  orbSpawnTimer :: real
  orbSpawnInterval :: real
  orbFallSpeed :: real
  basketBottomMargin :: real
  lastDestroyedOrbColor :: vec4
  currentState :: GameState

definition getOrbColor :: "ElementType \<Rightarrow> vec4" where
  "getOrbColor t =
     (if t = EARTH then (0.6, 0.4, 0.2, 1)
      else if t = WATER then (0.2, 0.4, 0.8, 1)
      else if t = FIRE then (0.8, 0.2, 0.2, 1)
      else if t = AIR then (0.7, 0.9, 1, 1)
      else (1, 1, 1, 1))"

definition Game_new :: "int \<Rightarrow> int \<Rightarrow> Game" where
  "Game_new width height =
     \<lparr> screenWidth = width, screenHeight = height, score = 0,
       playerBasket = Basket_new 0 (- (real_of_int height / 2) + 60 / 2 + 30) 120 60 300,
       fallingOrbs = [],
       particleSystems = [ParticleSystem_new 500, ParticleSystem_new 500,
                          ParticleSystem_new 500, ParticleSystem_new 500],
       orbSpawnTimer = 0, orbSpawnInterval = 1.5, orbFallSpeed = 100,
       basketBottomMargin = 30, lastDestroyedOrbColor = (1, 1, 1, 1),
       currentState = RUNNING \<rparr>"

text \<open>
  \<^verbatim>\<open>Game::getParticleSystem\<close>. A pointer to a pool is the pool's index in
  \<open>particleSystems\<close>; \<open>None\<close> is \<^verbatim>\<open>nullptr\<close>.
\<close>

definition getParticleSystem :: "Game \<Rightarrow> ElementType \<Rightarrow> nat option" where
  "getParticleSystem g t = (if t \<ge> 0 \<and> t < NUM_ELEMENT_TYPES then Some (nat t) else None)"

text \<open>
  \<^verbatim>\<open>pool->emit(pos, count, t)\<close> on the pool at index \<open>i\<close> of the vector; an index outside the
  vector is undefined behaviour.
\<close>

definition emit_at ::
  "nat \<Rightarrow> vec3 \<Rightarrow> int \<Rightarrow> ElementType \<Rightarrow> gen \<Rightarrow> ParticleSystem list \<Rightarrow> (ParticleSystem list \<times> gen) option" where
  "emit_at i pos count t g pools =
     (if i < length pools
      then (case emit pos count t g (pools ! i) of (s, g1) \<Rightarrow> Some (pools[i := s], g1))
      else None)"

text \<open>
  \<^verbatim>\<open>particleSystems[t]\<close> as the source writes it in \<^verbatim>\<open>checkCollisions\<close>: the enum value
  converted to an unsigned index, with no check.
\<close>

definition pool_index :: "ParticleSystem list \<Rightarrow> ElementType \<Rightarrow> nat option" where
  "pool_index pools t = (if 0 \<le> t \<and> nat t < length pools then Some (nat t) else None)"

text \<open>
  \<^verbatim>\<open>Orb::update\<close>, called with \<^verbatim>\<open>this\<close> of the game for \<^verbatim>\<open>gameInstance\<close> (the only call there
  is), so the test \<^verbatim>\<open>if (gameInstance)\<close> succeeds. \<open>now\<close> is the value \<^verbatim>\<open>glfwGetTime()\<close> returns.
  The result of \<^verbatim>\<open>getParticleSystem\<close> is used without a null test.
\<close>

definition Orb_update :: "real \<Rightarrow> real \<Rightarrow> gen \<Rightarrow> Orb \<Rightarrow> Game \<Rightarrow> (Orb \<times> Game \<times> gen) option" where
  "Orb_update dt now g orb gm =
     (case position orb of (x, y, z) \<Rightarrow>
        (let orb1 = orb\<lparr>position := (x, y - fallSpeed orb * dt, z)\<rparr>;
             orb2 = orb1\<lparr>position :=
                      (initialX orb1 + zigzagAmplitude orb1 *
                         sin (now * zigzagFrequency orb1 + zigzagPhaseOffset orb1),
                       fst (snd (position orb1)), snd (snd (position orb1)))\<rparr>;
             orb3 = orb2\<lparr>particleEmitTimer := particleEmitTimer orb2 + dt\<rparr>
         in if particleEmitTimer orb3 \<ge> particleEmitInterval orb3 then
              (let emitPosition = vadd (position orb3)
                     (uniform_real (- o_width orb3 / 2) (o_width orb3 / 2) (g 0),
                      uniform_real (- o_height orb3 / 2) (o_height orb3 / 2) (g 1), 0);
                   g1 = drop_gen 2 g
               in case getParticleSystem gm (otype orb3) of
                    None \<Rightarrow> None
                  | Some i \<Rightarrow>
                      (case emit_at i emitPosition 1 (otype orb3) g1 (particleSystems gm) of
                         None \<Rightarrow> None
                       | Some (pools, g2) \<Rightarrow>
                           Some (orb3\<lparr>particleEmitTimer := 0\<rparr>, gm\<lparr>particleSystems := pools\<rparr>, g2)))
            else Some (orb3, gm, g)))"

text \<open>
  The loop \<^verbatim>\<open>for (auto& orb : fallingOrbs) orb->update(deltaTime, this)\<close>. \<open>clock\<close> gives the
  successive values of \<^verbatim>\<open>glfwGetTime()\<close>, one for each orb.
\<close>

fun update_orbs ::
  "real \<Rightarrow> (nat \<Rightarrow> real) \<Rightarrow> gen \<Rightarrow> Orb list \<Rightarrow> Game \<Rightarrow> (Orb list \<times> Game \<times> gen) option" where
  "update_orbs dt clock g [] gm = Some ([], gm, g)"
| "update_orbs dt clock g (orb # rest) gm =
     (case Orb_update dt (clock 0) g orb gm of
        None \<Rightarrow> None
      | Some (orb', gm1, g1) \<Rightarrow>
          (case update_orbs dt (\<lambda>k. clock (Suc k)) g1 rest gm1 of
             None \<Rightarrow> None
           | Some (rest', gm2, g2) \<Rightarrow> Some (orb' # rest', gm2, g2)))"

definition updateOrbs :: "real \<Rightarrow> (nat \<Rightarrow> real) \<Rightarrow> gen \<Rightarrow> Game \<Rightarrow> (Game \<times> gen) option" where
  "updateOrbs dt clock g gm =
     (case update_orbs dt clock g (fallingOrbs gm) gm of
        None \<Rightarrow> None
      | Some (orbs, gm1, g1) \<Rightarrow> Some (gm1\<lparr>fallingOrbs := orbs\<rparr>, g1))"

text \<open>
  The \<^verbatim>\<open>erase(remove_if(...))\<close> pass of \<^verbatim>\<open>Game::update\<close>. The predicate is applied once to
  each orb, first to last, and changes the score and the colour as it goes; the orbs it
  rejects stay, in their order.
\<close>

fun remove_offscreen :: "Orb list \<Rightarrow> Game \<Rightarrow> Orb list \<times> Game" where
  "remove_offscreen [] gm = ([], gm)"
| "remove_offscreen (orb # rest) gm =
     (if isOffScreen orb (- (real_of_int (screenHeight gm) / 2)) then
        remove_offscreen rest
          (gm\<lparr>score := score gm - 2, lastDestroyedOrbColor := getOrbColor (otype orb)\<rparr>)
      else (case remove_offscreen rest gm of (kept, gm1) \<Rightarrow> (orb # kept, gm1)))"

definition removeOffScreen :: "Game \<Rightarrow> Game" where
  "removeOffScreen gm =
     (case remove_offscreen (fallingOrbs gm) gm of (kept, gm1) \<Rightarrow> gm1\<lparr>fallingOrbs := kept\<rparr>)"

text \<open>\<^verbatim>\<open>Game::spawnOrb\<close>: the type and the abscissa come from the game's engine, in that order.\<close>

definition spawnOrb :: "gen \<Rightarrow> Game \<Rightarrow> Game \<times> gen" where
  "spawnOrb g gm =
     (let randomType = uniform_int 0 (NUM_ELEMENT_TYPES - 1) (g 0);
          randomX = uniform_real (- (real_of_int (screenWidth gm) / 2) + 30)
                                 (real_of_int (screenWidth gm) / 2 - 30) (g 1);
          orbSize = 60
      in case Orb_new randomX (real_of_int (screenHeight gm) / 2 + orbSize / 2) orbSize orbSize
                randomType (orbFallSpeed gm) (drop_gen 2 g) of
           (newOrb, g1) \<Rightarrow> (gm\<lparr>fallingOrbs := fallingOrbs gm @ [newOrb]\<rparr>, g1))"

definition spawnStep :: "real \<Rightarrow> gen \<Rightarrow> Game \<Rightarrow> Game \<times> gen" where
  "spawnStep dt g gm =
     (let gm1 = gm\<lparr>orbSpawnTimer := orbSpawnTimer gm + dt\<rparr>
      in if orbSpawnTimer gm1 \<ge> orbSpawnInterval gm1
         then (case spawnOrb g gm1 of (gm2, g1) \<Rightarrow> (gm2\<lparr>orbSpawnTimer := 0\<rparr>, g1))
         else (gm1, g))"

definition checkAABBCollision ::
  "real \<Rightarrow> real \<Rightarrow> real \<Rightarrow> real \<Rightarrow> real \<Rightarrow> real \<Rightarrow> real \<Rightarrow> real \<Rightarrow> bool" where
  "checkAABBCollision x1 y1 w1 h1 x2 y2 w2 h2 =
     (let collisionX = (x1 + w1 \<ge> x2 \<and> x2 + w2 \<ge> x1);
          collisionY = (y1 + h1 \<ge> y2 \<and> y2 + h2 \<ge> y1)
      in collisionX \<and> collisionY)"

text \<open>The test \<^verbatim>\<open>checkCollisions\<close> makes for one orb against the basket.\<close>

definition hits :: "Basket \<Rightarrow> Orb \<Rightarrow> bool" where
  "hits b orb =
     checkAABBCollision (o_getLeft orb) (o_getBottom orb) (fst (scale orb)) (fst (snd (scale orb)))
       (b_getLeft b) (b_getBottom b) (fst (scale b)) (fst (snd (scale b)))"

text \<open>
  The loop of \<^verbatim>\<open>Game::checkCollisions\<close> over the orbs from the iterator on; it returns the
  orbs that stay. Both branches index \<open>particleSystems\<close> with the orb's type directly.
\<close>

fun collide_orbs :: "gen \<Rightarrow> Orb list \<Rightarrow> Game \<Rightarrow> (Orb list \<times> Game \<times> gen) option" where
  "collide_orbs g [] gm = Some ([], gm, g)"
| "collide_orbs g (orb # rest) gm =
     (if hits (playerBasket gm) orb then
        (if otype orb = currentType (playerBasket gm) then
           (let gm1 = gm\<lparr>score := score gm + 5, lastDestroyedOrbColor := getOrbColor (otype orb)\<rparr>
            in case pool_index (particleSystems gm1) (otype orb) of
                 None \<Rightarrow> None
               | Some i \<Rightarrow>
                   (case emit_at i (position orb) 50 (otype orb) g (particleSystems gm1) of
                      None \<Rightarrow> None
                    | Some (pools, g1) \<Rightarrow> collide_orbs g1 rest (gm1\<lparr>particleSystems := pools\<rparr>)))
         else
           (let gm1 = gm\<lparr>score := score gm - 2, lastDestroyedOrbColor := getOrbColor (otype orb)\<rparr>
            in case pool_index (particleSystems gm1) (otype orb) of
                 None \<Rightarrow> None
               | Some i \<Rightarrow>
                   (case emit_at i (position orb) 20 (otype orb) g (particleSystems gm1) of
                      None \<Rightarrow> None
                    | Some (pools, g1) \<Rightarrow> collide_orbs g1 rest (gm1\<lparr>particleSystems := pools\<rparr>))))
      else (case collide_orbs g rest gm of
              None \<Rightarrow> None
            | Some (kept, gm1, g1) \<Rightarrow> Some (orb # kept, gm1, g1)))"

definition checkCollisions :: "gen \<Rightarrow> Game \<Rightarrow> (Game \<times> gen) option" where
  "checkCollisions g gm =
     (case collide_orbs g (fallingOrbs gm) gm of
        None \<Rightarrow> None
      | Some (kept, gm1, g1) \<Rightarrow> Some (gm1\<lparr>fallingOrbs := kept\<rparr>, g1))"

definition updateParticleSystems :: "real \<Rightarrow> Game \<Rightarrow> Game" where
  "updateParticleSystems dt gm =
     gm\<lparr>particleSystems := map (ParticleSystem_update dt) (particleSystems gm)\<rparr>"

text \<open>The two threshold tests that end the running branch of \<^verbatim>\<open>Game::update\<close>.\<close>

definition checkThresholds :: "Game \<Rightarrow> Game" where
  "checkThresholds gm =
     (let gm1 = (if score gm \<le> - 5
                 then gm\<lparr>currentState := GAME_OVER_LOSE, fallingOrbs := []\<rparr> else gm)
      in if score gm1 \<ge> 100
         then gm1\<lparr>currentState := GAME_OVER_WIN, fallingOrbs := []\<rparr> else gm1)"

text \<open>
  The running branch of \<^verbatim>\<open>Game::update\<close> up to the threshold tests: orbs advance, off-screen
  orbs are removed, an orb is spawned when due, collisions are resolved, pools advance.
\<close>

definition frame_events :: "real \<Rightarrow> (nat \<Rightarrow> real) \<Rightarrow> gen \<Rightarrow> Game \<Rightarrow> (Game \<times> gen) option" where
  "frame_events dt clock g gm =
     (case updateOrbs dt clock g gm of
        None \<Rightarrow> None
      | Some (gm1, g1) \<Rightarrow>
          (case spawnStep dt g1 (removeOffScreen gm1) of
             (gm2, g2) \<Rightarrow>
               (case checkCollisions g2 gm2 of
                  None \<Rightarrow> None
                | Some (gm3, g3) \<Rightarrow> Some (updateParticleSystems dt gm3, g3))))"

definition update :: "real \<Rightarrow> (nat \<Rightarrow> real) \<Rightarrow> gen \<Rightarrow> Game \<Rightarrow> (Game \<times> gen) option" where
  "update dt clock g gm =
     (if currentState gm = RUNNING then
        (case frame_events dt clock g gm of
           None \<Rightarrow> None
         | Some (gm1, g1) \<Rightarrow> Some (checkThresholds gm1, g1))
      else Some (updateParticleSystems dt gm, g))"

definition resetGame :: "Game \<Rightarrow> Game" where
  "resetGame gm =
     gm\<lparr> score := 0, fallingOrbs := [], orbSpawnTimer := 0, currentState := RUNNING,
         lastDestroyedOrbColor := (1, 1, 1, 1),
         playerBasket := (playerBasket gm)
           \<lparr> position := (0, - (real_of_int (screenHeight gm) / 2) + 60 / 2 + basketBottomMargin gm, 0),
             currentType := EARTH \<rparr> \<rparr>"

text \<open>The keys \<^verbatim>\<open>Game::processInput\<close> polls, as held or not in this frame.\<close>

record Keys =
  key_A :: bool
  key_D :: bool
  key_R :: bool

definition setPosition :: "vec3 \<Rightarrow> Basket \<Rightarrow> Basket" where
  "setPosition pos b = b\<lparr>position := pos\<rparr>"

definition processInput :: "Keys \<Rightarrow> real \<Rightarrow> Game \<Rightarrow> Game" where
  "processInput keys dt gm =
     (if currentState gm = RUNNING then
        (let half = real_of_int (screenWidth gm) / 2;
             b1 = (if key_A keys then
                     (let b = moveLeft dt (playerBasket gm)
                      in if b_getLeft b < - half
                         then setPosition (- half + fst (scale b) / 2, fst (snd (position b)), 0) b
                         else b)
                   else playerBasket gm);
             b2 = (if key_D keys then
                     (let b = moveRight dt b1
                      in if b_getRight b > half
                         then setPosition (half - fst (scale b) / 2, fst (snd (position b)), 0) b
                         else b)
                   else b1)
         in gm\<lparr>playerBasket := b2\<rparr>)
      else if key_R keys then resetGame gm else gm)"

definition scrollCallback :: "real \<Rightarrow> Game \<Rightarrow> Game" where
  "scrollCallback yoffset gm =
     (if currentState gm = RUNNING then
        (if yoffset > 0 then gm\<lparr>playerBasket := changeType 1 (playerBasket gm)\<rparr>
         else if yoffset < 0 then gm\<lparr>playerBasket := changeType (- 1) (playerBasket gm)\<rparr>
         else gm)
      else gm)"

definition setScreenDimensions :: "int \<Rightarrow> int \<Rightarrow> Game \<Rightarrow> Game" where
  "setScreenDimensions newWidth newHeight gm =
     (let gm1 = gm\<lparr>screenWidth := newWidth, screenHeight := newHeight\<rparr>;
          b = playerBasket gm1;
          newBasketY = - (real_of_int (screenHeight gm1) / 2) + fst (snd (scale b)) / 2
                       + basketBottomMargin gm1
      in gm1\<lparr>playerBasket := setPosition (fst (position b), newBasketY, 0) b\<rparr>)"

text \<open>
  What the constructor of \<^verbatim>\<open>Game\<close> establishes: four pools, each well formed, and every
  element type in the game one of the four enumerators.
\<close>

definition game_ok :: "Game \<Rightarrow> bool" where
  "game_ok gm =
     (length (particleSystems gm) = 4 \<and> list_all pool_ok (particleSystems gm) \<and>
      list_all (\<lambda>orb. valid_type (otype orb)) (fallingOrbs gm) \<and>
      valid_type (currentType (playerBasket gm)))"

text \<open>
  Successive calls of \<^verbatim>\<open>Orb::update\<close> on one orb, each with its own elapsed time, clock
  value and engine.
\<close>

fun advance_orb :: "(real \<times> real \<times> gen) list \<Rightarrow> Orb \<Rightarrow> Game \<Rightarrow> (Orb \<times> Game) option" where
  "advance_orb [] orb gm = Some (orb, gm)"
| "advance_orb ((dt, now, g) # steps) orb gm =
     (case Orb_update dt now g orb gm of
        None \<Rightarrow> None
      | Some (orb', gm', g') \<Rightarrow> advance_orb steps orb' gm')"

subsection \<open>Vocabulary for stating the claims\<close>

definition pools_ok :: "ParticleSystem list \<Rightarrow> bool" where
  "pools_ok pools = (length pools = 4 \<and> list_all pool_ok pools)"

text \<open>The score change and the size of the burst that \<^verbatim>\<open>checkCollisions\<close> gives a caught orb.\<close>

definition catch_reward :: "Basket \<Rightarrow> Orb \<Rightarrow> int" where
  "catch_reward b orb = (if otype orb = currentType b then 5 else - 2)"

definition catch_burst :: "Basket \<Rightarrow> Orb \<Rightarrow> int" where
  "catch_burst b orb = (if otype orb = currentType b then 50 else 20)"

text \<open>One \<open>emit\<close> call of \<open>n\<close> particles at the orb's position into the pool of the orb's type.\<close>

definition burst :: "int \<Rightarrow> Orb \<Rightarrow> ParticleSystem list \<times> gen \<Rightarrow> ParticleSystem list \<times> gen" where
  "burst n orb acc =
     (case emit (position orb) n (otype orb) (snd acc) (fst acc ! nat (otype orb)) of
        (s, g1) \<Rightarrow> ((fst acc)[nat (otype orb) := s], g1))"

definition y_of :: "Orb \<Rightarrow> real" where
  "y_of orb = fst (snd (position orb))"

subsection \<open>The slot search as the specification words it\<close>

text \<open>
  The specification describes the search for a free slot as a scan "starting at the index
  following the last slot that was (re)activated, wrapping around once". These two
  definitions follow those words, for comparison with \<open>findUnusedParticle\<close>.
\<close>

definition spec_scan_order :: "ParticleSystem \<Rightarrow> nat list" where
  "spec_scan_order s =
     [Suc (lastUsedParticle s)..<maxParticles s] @ [0..<Suc (lastUsedParticle s)]"

definition spec_findUnused :: "ParticleSystem \<Rightarrow> nat option" where
  "spec_findUnused s = find (\<lambda>i. \<not> active (particles s ! i)) (spec_scan_order s)"

subsection \<open>Concrete states\<close>

definition zero_gen :: gen where
  "zero_gen = (\<lambda>_. 0)"

text \<open>
  A pool of three slots in which two particles were emitted (slots 0 and 1) and have since
  expired: every slot is inactive and \<open>lastUsedParticle\<close> is 1.
\<close>

definition expired_pool :: ParticleSystem where
  "expired_pool =
     run_ops [Emit (0, 0, 0) 2 EARTH zero_gen, Advance 2] (ParticleSystem_new 3)"

text \<open>
  A running game on a 1024 by 768 field with four orbs: an earth orb and a fire orb on the
  (earth) basket, a water orb below the bottom edge, and an air orb high up on the right.
\<close>

definition demo_orb :: "ElementType \<Rightarrow> real \<Rightarrow> real \<Rightarrow> Orb" where
  "demo_orb t x y = fst (Orb_new x y 60 60 t 100 zero_gen)"

definition demo_game :: Game where
  "demo_game = (Game_new 1024 768)
     \<lparr>fallingOrbs := [demo_orb EARTH 0 (- 324), demo_orb FIRE 30 (- 300),
                      demo_orb WATER 0 (- 500), demo_orb AIR 400 200]\<rparr>"

text \<open>The same field after the game was lost.\<close>

definition lost_game :: Game where
  "lost_game = (Game_new 1024 768)\<lparr>score := - 6, currentState := GAME_OVER_LOSE\<rparr>"

definition key_R_held :: Keys where
  "key_R_held = \<lparr> key_A = False, key_D = False, key_R = True \<rparr>"

text \<open>A running game at 98 points with one earth orb on the (earth) basket.\<close>

definition near_win_game :: Game where
  "near_win_game = (Game_new 1024 768)\<lparr>score := 98, fallingOrbs := [demo_orb EARTH 0 (- 324)]\<rparr>"

text \<open>
  A lost game in which one earth particle is still alive: pool 0 has had one particle
  emitted at the origin.
\<close>

definition spark_pool :: ParticleSystem where
  "spark_pool = fst (emit (0, 0, 0) 1 EARTH zero_gen (ParticleSystem_new 500))"

definition fading_game :: Game where
  "fading_game = lost_game
     \<lparr>particleSystems := [spark_pool, ParticleSystem_new 500, ParticleSystem_new 500,
                          ParticleSystem_new 500]\<rparr>"

text \<open>
  A game holding an orb whose type is 7, outside the enumeration, placed on the basket.
  No run of the program builds it; it shows what the lookups do with such a value.
\<close>

definition bad_orb :: Orb where
  "bad_orb = demo_orb 7 0 (- 324)"

definition bad_game :: Game where
  "bad_game = (Game_new 1024 768)\<lparr>fallingOrbs := [bad_orb]\<rparr>"

definition demo_basket :: Basket where
  "demo_basket = Basket_new 0 (- 324) 120 60 300"

subsection \<open>Facts about the pool\<close>

lemma scan_unused_Some:
  "scan_unused ps lo hi = Some i \<Longrightarrow> lo \<le> i \<and> i < hi \<and> \<not> active (ps ! i)"
proof (induction ps lo hi rule: scan_unused.induct)
  case (1 ps lo hi)
  show ?case
  proof (cases "lo < hi \<and> active (ps ! lo)")
    case True
    with "1.prems" have "scan_unused ps (Suc lo) hi = Some i"
      by (simp add: scan_unused.simps [of ps lo hi])
    with "1.IH" True show ?thesis by fastforce
  next
    case False
    with "1.prems" show ?thesis
      by (auto simp: scan_unused.simps [of ps lo hi] split: if_splits)
  qed
qed

lemma scan_unused_None:
  "scan_unused ps lo hi = None \<Longrightarrow> lo \<le> i \<Longrightarrow> i < hi \<Longrightarrow> active (ps ! i)"
proof (induction ps lo hi rule: scan_unused.induct)
  case (1 ps lo hi)
  from "1.prems" have lt: "lo < hi" by simp
  with "1.prems" have a: "active (ps ! lo)" and rest: "scan_unused ps (Suc lo) hi = None"
    by (auto simp: scan_unused.simps [of ps lo hi] split: if_splits)
  show ?case
  proof (cases "i = lo")
    case True
    with a show ?thesis by simp
  next
    case False
    with "1.prems" have "Suc lo \<le> i" by simp
    with "1.IH" lt a rest "1.prems" show ?thesis by simp
  qed
qed

lemma scan_unused_first:
  "scan_unused ps lo hi = Some i \<Longrightarrow> lo \<le> j \<Longrightarrow> j < i \<Longrightarrow> active (ps ! j)"
proof (induction ps lo hi rule: scan_unused.induct)
  case (1 ps lo hi)
  from "1.prems" scan_unused_Some [of ps lo hi i] have lt: "lo < hi" by simp
  from "1.prems" have ne: "scan_unused ps lo hi \<noteq> Some lo"
    by auto
  with lt have a: "active (ps ! lo)"
    by (auto simp: scan_unused.simps [of ps lo hi] split: if_splits)
  with lt "1.prems" have rest: "scan_unused ps (Suc lo) hi = Some i"
    by (simp add: scan_unused.simps [of ps lo hi])
  show ?case
  proof (cases "j = lo")
    case True
    with a show ?thesis by simp
  next
    case False
    with "1.prems" have "Suc lo \<le> j" by simp
    with "1.IH" lt a rest "1.prems" show ?thesis by simp
  qed
qed

lemma scan_unused_find:
  "scan_unused ps lo hi = find (\<lambda>i. \<not> active (ps ! i)) [lo..<hi]"
proof (induction ps lo hi rule: scan_unused.induct)
  case (1 ps lo hi)
  show ?case
  proof (cases "lo < hi")
    case True
    then have "[lo..<hi] = lo # [Suc lo..<hi]" by (simp add: upt_conv_Cons)
    with True "1.IH" show ?thesis
      by (simp add: scan_unused.simps [of ps lo hi])
  next
    case False
    then show ?thesis by (simp add: scan_unused.simps [of ps lo hi])
  qed
qed

lemma find_app:
  "find P (xs @ ys) = (case find P xs of None \<Rightarrow> find P ys | Some x \<Rightarrow> Some x)"
  by (induction xs) auto

lemma findUnusedParticle_Some:
  assumes "findUnusedParticle s = (Some i, s')" and "pool_ok s"
  shows "i < maxParticles s \<and> \<not> active (particles s ! i) \<and> s' = s\<lparr>lastUsedParticle := i\<rparr>"
proof -
  from assms(1) consider
      "scan_unused (particles s) (lastUsedParticle s) (maxParticles s) = Some i"
    | "scan_unused (particles s) 0 (lastUsedParticle s) = Some i"
    by (auto simp: findUnusedParticle_def split: option.splits)
  then have "i < maxParticles s \<and> \<not> active (particles s ! i)"
  proof cases
    case 1
    then show ?thesis using scan_unused_Some by blast
  next
    case 2
    from scan_unused_Some [OF 2] assms(2) show ?thesis by (simp add: pool_ok_def)
  qed
  moreover from assms(1) have "s' = s\<lparr>lastUsedParticle := i\<rparr>"
    by (auto simp: findUnusedParticle_def split: option.splits)
  ultimately show ?thesis by simp
qed

lemma findUnusedParticle_None:
  assumes "findUnusedParticle s = (None, s')" and "pool_ok s"
  shows "s' = s \<and> (\<forall>i < maxParticles s. active (particles s ! i))"
proof -
  from assms(1) have hi: "scan_unused (particles s) (lastUsedParticle s) (maxParticles s) = None"
    and lo: "scan_unused (particles s) 0 (lastUsedParticle s) = None" and eq: "s' = s"
    by (auto simp: findUnusedParticle_def split: option.splits)
  have "active (particles s ! i)" if "i < maxParticles s" for i
  proof (cases "i < lastUsedParticle s")
    case True
    with lo show ?thesis using scan_unused_None by blast
  next
    case False
    with hi that show ?thesis using scan_unused_None [of "particles s" "lastUsedParticle s"] by simp
  qed
  with eq show ?thesis by simp
qed

lemma findUnusedParticle_all_active:
  assumes "\<forall>i < maxParticles s. active (particles s ! i)" and "pool_ok s"
  shows "findUnusedParticle s = (None, s)"
proof (cases "findUnusedParticle s")
  case (Pair r s')
  show ?thesis
  proof (cases r)
    case None
    with Pair findUnusedParticle_None [of s s'] assms(2) show ?thesis by simp
  next
    case (Some i)
    with Pair findUnusedParticle_Some [of s i s'] assms(2)
    have "i < maxParticles s" "\<not> active (particles s ! i)" by simp_all
    with assms(1) show ?thesis by blast
  qed
qed

lemma init_particle_active: "active (fst (init_particle pos t g p))"
  by (simp add: init_particle_def Let_def)

text \<open>What one iteration of the loop of \<^verbatim>\<open>emit\<close> keeps, and therefore the whole loop.\<close>

definition keeps_active :: "ParticleSystem \<Rightarrow> ParticleSystem \<Rightarrow> bool" where
  "keeps_active s s' =
     (pool_ok s' \<and> maxParticles s' = maxParticles s \<and>
      (\<forall>i < maxParticles s. active (particles s ! i) \<longrightarrow> particles s' ! i = particles s ! i))"

lemma keeps_active_refl: "pool_ok s \<Longrightarrow> keeps_active s s"
  by (simp add: keeps_active_def)

lemma keeps_active_trans:
  "keeps_active s s1 \<Longrightarrow> keeps_active s1 s2 \<Longrightarrow> keeps_active s s2"
  by (auto simp: keeps_active_def)

lemma keeps_active_step:
  assumes "pool_ok s" and "i < maxParticles s" and "\<not> active (particles s ! i)"
  shows "keeps_active s (s\<lparr>lastUsedParticle := i, particles := (particles s)[i := p]\<rparr>)"
  using assms by (auto simp: keeps_active_def pool_ok_def nth_list_update)

lemma emit_loop_keeps_active:
  "pool_ok s \<Longrightarrow> keeps_active s (fst (emit_loop n pos t g s))"
proof (induction n arbitrary: g s)
  case 0
  then show ?case by (simp add: keeps_active_refl)
next
  case (Suc n)
  obtain r s1 where f: "findUnusedParticle s = (r, s1)" by (cases "findUnusedParticle s")
  show ?case
  proof (cases r)
    case None
    with f Suc.prems findUnusedParticle_None [of s s1] have "s1 = s" by simp
    with f None Suc show ?thesis by simp
  next
    case (Some i)
    with f Suc.prems findUnusedParticle_Some [of s i s1]
    have i: "i < maxParticles s" "\<not> active (particles s ! i)" and s1: "s1 = s\<lparr>lastUsedParticle := i\<rparr>"
      by simp_all
    obtain p g1 where ip: "init_particle pos t g (particles s1 ! i) = (p, g1)"
      by (cases "init_particle pos t g (particles s1 ! i)")
    let ?s2 = "s\<lparr>lastUsedParticle := i, particles := (particles s)[i := p]\<rparr>"
    have k: "keeps_active s ?s2" using Suc.prems i by (rule keeps_active_step)
    then have "pool_ok ?s2" by (simp add: keeps_active_def)
    then have "keeps_active ?s2 (fst (emit_loop n pos t g1 ?s2))" by (rule Suc.IH)
    with k have "keeps_active s (fst (emit_loop n pos t g1 ?s2))" by (rule keeps_active_trans)
    with f Some s1 ip show ?thesis by simp
  qed
qed

lemma emit_loop_full:
  "pool_ok s \<Longrightarrow> \<forall>i < maxParticles s. active (particles s ! i) \<Longrightarrow> emit_loop n pos t g s = (s, g)"
  by (induction n) (simp_all add: findUnusedParticle_all_active)

lemma emit_pool_ok: "pool_ok s \<Longrightarrow> pool_ok (fst (emit pos count t g s))"
  using emit_loop_keeps_active [of s "nat count" pos t g] by (simp add: emit_def keeps_active_def)

lemma emit_maxParticles: "pool_ok s \<Longrightarrow> maxParticles (fst (emit pos count t g s)) = maxParticles s"
  using emit_loop_keeps_active [of s "nat count" pos t g] by (simp add: emit_def keeps_active_def)

lemma update_pool_ok: "pool_ok s \<Longrightarrow> pool_ok (ParticleSystem_update dt s)"
  by (simp add: pool_ok_def ParticleSystem_update_def)

lemma update_maxParticles: "maxParticles (ParticleSystem_update dt s) = maxParticles s"
  by (simp add: ParticleSystem_update_def)

lemma new_pool_ok: "pool_ok (ParticleSystem_new n)"
  by (simp add: pool_ok_def ParticleSystem_new_def)

lemma apply_op_ok:
  "pool_ok s \<Longrightarrow> pool_ok (apply_op s op) \<and> maxParticles (apply_op s op) = maxParticles s"
  by (cases op) (simp_all add: emit_pool_ok emit_maxParticles update_pool_ok update_maxParticles)

lemma run_ops_ok:
  "pool_ok s \<Longrightarrow> pool_ok (run_ops ops s) \<and> maxParticles (run_ops ops s) = maxParticles s"
  unfolding run_ops_def
proof (induction ops arbitrary: s)
  case Nil
  then show ?case by simp
next
  case (Cons op ops)
  from Cons.prems have "pool_ok (apply_op s op)" "maxParticles (apply_op s op) = maxParticles s"
    using apply_op_ok by blast+
  with Cons.IH [of "apply_op s op"] show ?case by simp
qed

lemma active_count_le: "pool_ok s \<Longrightarrow> active_count s \<le> maxParticles s"
  using length_filter_le [of active "particles s"] by (simp add: active_count_def pool_ok_def)

lemmas eval_pool =
  findUnusedParticle_def ParticleSystem_new_def scan_unused.simps Particle_new_def
  init_particle_def Let_def drop_gen_def lifeDist_def sizeDist_def velDist_def uniform_real_def
  emit_def ParticleSystem_update_def Particle_update_def run_ops_def zero_gen_def
  numeral_2_eq_2 numeral_3_eq_3

lemma expired_pool_eval:
  "lastUsedParticle expired_pool = 1 \<and> maxParticles expired_pool = 3 \<and>
   map active (particles expired_pool) = [False, False, False]"
  by (simp add: expired_pool_def eval_pool)

lemma expired_pool_length: "length (particles expired_pool) = 3"
proof -
  have "length (map active (particles expired_pool)) = 3"
    using expired_pool_eval by simp
  then show ?thesis by simp
qed

lemma expired_pool_inactive: "i < 3 \<Longrightarrow> \<not> active (particles expired_pool ! i)"
proof -
  assume i: "i < 3"
  then have "active (particles expired_pool ! i) = map active (particles expired_pool) ! i"
    using expired_pool_length by simp
  also have "\<dots> = [False, False, False] ! i" using expired_pool_eval by simp
  also have "\<dots> = False"
  proof -
    from i have "i = 0 \<or> i = 1 \<or> i = 2" by arith
    then show ?thesis by (elim disjE) simp_all
  qed
  finally show ?thesis by simp
qed

lemma smod_nonneg: "0 \<le> k \<Longrightarrow> (k::int) smod l = k mod \<bar>l\<bar>"
  by (simp add: signed_modulo_int_def sgn_if)

subsection \<open>Facts about the steps of a frame\<close>

lemma pools_ok_update:
  "pools_ok pools \<Longrightarrow> pool_ok s \<Longrightarrow> pools_ok (pools[i := s])"
  using set_update_subset_insert [of pools i s] by (auto simp: pools_ok_def list_all_iff)

lemma pools_ok_nth: "pools_ok pools \<Longrightarrow> i < 4 \<Longrightarrow> pool_ok (pools ! i)"
  by (simp add: pools_ok_def list_all_length)

lemma emit_at_ok:
  assumes "pools_ok pools" and "i < 4"
  shows "emit_at i pos n t g pools =
           Some (pools[i := fst (emit pos n t g (pools ! i))], snd (emit pos n t g (pools ! i)))
         \<and> pools_ok (pools[i := fst (emit pos n t g (pools ! i))])"
proof -
  from assms have "pool_ok (pools ! i)" by (rule pools_ok_nth)
  then have "pool_ok (fst (emit pos n t g (pools ! i)))" by (rule emit_pool_ok)
  with assms(1) have "pools_ok (pools[i := fst (emit pos n t g (pools ! i))])"
    by (rule pools_ok_update)
  moreover from assms have "i < length pools" by (simp add: pools_ok_def)
  ultimately show ?thesis by (simp add: emit_at_def split: prod.splits)
qed

lemma valid_type_nat: "valid_type t \<Longrightarrow> nat t < 4"
  by (auto simp: valid_type_def)

lemma Orb_update_ok:
  assumes "pools_ok (particleSystems gm)" and "valid_type (otype orb)"
  shows "\<exists>orb' pools' g'. Orb_update dt now g orb gm = Some (orb', gm\<lparr>particleSystems := pools'\<rparr>, g')
           \<and> pools_ok pools' \<and> otype orb' = otype orb \<and> fallSpeed orb' = fallSpeed orb
           \<and> y_of orb' = y_of orb - fallSpeed orb * dt"
proof -
  obtain x y z where p: "position orb = (x, y, z)" by (cases "position orb")
  from assms(2) have gp: "getParticleSystem gm (otype orb) = Some (nat (otype orb))"
    by (simp add: getParticleSystem_def valid_type_def)
  from assms(2) have i: "nat (otype orb) < 4" by (rule valid_type_nat)
  show ?thesis
  proof (cases "particleEmitTimer orb + dt \<ge> particleEmitInterval orb")
    case True
    let ?pos = "vadd (x, y - fallSpeed orb * dt, z) (0, 0, 0)"
    from True p gp emit_at_ok [OF assms(1) i] show ?thesis
      by (auto simp: Orb_update_def Let_def y_of_def)
  next
    case False
    have "gm\<lparr>particleSystems := particleSystems gm\<rparr> = gm" by simp
    with False p assms(1) show ?thesis
      by (auto simp: Orb_update_def Let_def y_of_def intro!: exI [of _ "particleSystems gm"])
  qed
qed

lemma update_orbs_ok:
  assumes "pools_ok (particleSystems gm)" and "list_all (\<lambda>orb. valid_type (otype orb)) orbs"
  shows "\<exists>orbs' pools' g'. update_orbs dt clock g orbs gm = Some (orbs', gm\<lparr>particleSystems := pools'\<rparr>, g')
           \<and> pools_ok pools' \<and> list_all (\<lambda>orb. valid_type (otype orb)) orbs'
           \<and> length orbs' = length orbs"
  using assms
proof (induction orbs arbitrary: gm g clock)
  case Nil
  have "gm\<lparr>particleSystems := particleSystems gm\<rparr> = gm" by simp
  with Nil show ?case by (auto intro!: exI [of _ "particleSystems gm"])
next
  case (Cons orb rest)
  from Cons.prems have v: "valid_type (otype orb)" and vr: "list_all (\<lambda>orb. valid_type (otype orb)) rest"
    by simp_all
  from Orb_update_ok [OF Cons.prems(1) v, of dt "clock 0" g]
  obtain orb' pools1 g1 where
    u: "Orb_update dt (clock 0) g orb gm = Some (orb', gm\<lparr>particleSystems := pools1\<rparr>, g1)"
    and ok1: "pools_ok pools1" and t: "otype orb' = otype orb"
    by blast
  let ?gm1 = "gm\<lparr>particleSystems := pools1\<rparr>"
  from ok1 have "pools_ok (particleSystems ?gm1)" by simp
  from Cons.IH [OF this vr, of "\<lambda>k. clock (Suc k)" g1]
  obtain rest' pools2 g2 where
    r: "update_orbs dt (\<lambda>k. clock (Suc k)) g1 rest ?gm1 = Some (rest', ?gm1\<lparr>particleSystems := pools2\<rparr>, g2)"
    and ok2: "pools_ok pools2" and vr': "list_all (\<lambda>orb. valid_type (otype orb)) rest'"
    and len: "length rest' = length rest"
    by blast
  have "?gm1\<lparr>particleSystems := pools2\<rparr> = gm\<lparr>particleSystems := pools2\<rparr>" by simp
  with u r ok2 vr' len t v show ?case by auto
qed

lemma remove_offscreen_eq:
  "remove_offscreen orbs gm =
     (filter (\<lambda>orb. \<not> isOffScreen orb (- (real_of_int (screenHeight gm) / 2))) orbs,
      gm\<lparr>score := score gm - 2 * int (length (filter (\<lambda>orb. isOffScreen orb (- (real_of_int (screenHeight gm) / 2))) orbs)),
         lastDestroyedOrbColor := foldl (\<lambda>c orb. getOrbColor (otype orb)) (lastDestroyedOrbColor gm)
            (filter (\<lambda>orb. isOffScreen orb (- (real_of_int (screenHeight gm) / 2))) orbs)\<rparr>)"
  by (induction orbs arbitrary: gm) simp_all

lemma burst_pools_ok:
  "pools_ok (fst acc) \<Longrightarrow> valid_type (otype orb) \<Longrightarrow> pools_ok (fst (burst n orb acc))"
  by (simp add: burst_def split: prod.splits)
     (metis emit_pool_ok fst_conv pools_ok_nth pools_ok_update valid_type_nat)

lemma collide_orbs_eq:
  assumes "pools_ok (particleSystems gm)" and "list_all (\<lambda>orb. valid_type (otype orb)) orbs"
  shows "collide_orbs g orbs gm =
     Some (filter (\<lambda>orb. \<not> hits (playerBasket gm) orb) orbs,
           gm\<lparr>score := score gm + sum_list (map (catch_reward (playerBasket gm)) (filter (hits (playerBasket gm)) orbs)),
              lastDestroyedOrbColor := foldl (\<lambda>c orb. getOrbColor (otype orb)) (lastDestroyedOrbColor gm)
                 (filter (hits (playerBasket gm)) orbs),
              particleSystems := fst (foldl (\<lambda>acc orb. burst (catch_burst (playerBasket gm) orb) orb acc)
                 (particleSystems gm, g) (filter (hits (playerBasket gm)) orbs))\<rparr>,
           snd (foldl (\<lambda>acc orb. burst (catch_burst (playerBasket gm) orb) orb acc)
                 (particleSystems gm, g) (filter (hits (playerBasket gm)) orbs)))"
  using assms
proof (induction orbs arbitrary: gm g)
  case Nil
  then show ?case by simp
next
  case (Cons orb rest)
  from Cons.prems have v: "valid_type (otype orb)" and vr: "list_all (\<lambda>orb. valid_type (otype orb)) rest"
    by simp_all
  show ?case
  proof (cases "hits (playerBasket gm) orb")
    case False
    with Cons.IH [OF Cons.prems(1) vr, of g] show ?thesis by simp
  next
    case True
    let ?b = "playerBasket gm"
    let ?n = "catch_burst ?b orb"
    let ?acc = "burst ?n orb (particleSystems gm, g)"
    let ?gm1 = "gm\<lparr>score := score gm + catch_reward ?b orb,
                    lastDestroyedOrbColor := getOrbColor (otype orb),
                    particleSystems := fst ?acc\<rparr>"
    from v have i: "nat (otype orb) < 4" by (rule valid_type_nat)
    from v i Cons.prems(1) have pi: "pool_index (particleSystems gm) (otype orb) = Some (nat (otype orb))"
      by (simp add: pool_index_def valid_type_def pools_ok_def)
    have ea: "emit_at (nat (otype orb)) (position orb) ?n (otype orb) g (particleSystems gm) = Some ?acc"
      using emit_at_ok [OF Cons.prems(1) i] by (simp add: burst_def split: prod.splits)
    have ok1: "pools_ok (particleSystems ?gm1)"
      using burst_pools_ok [of "(particleSystems gm, g)" orb ?n] Cons.prems(1) v by simp
    have step: "collide_orbs g (orb # rest) gm = collide_orbs (snd ?acc) rest ?gm1"
      using True pi ea
      by (cases "otype orb = currentType (playerBasket gm)")
         (simp_all add: catch_reward_def catch_burst_def Let_def split: prod.splits)
    show ?thesis
      unfolding step using True Cons.IH [OF ok1 vr, of "snd ?acc"] by simp
  qed
qed

lemma game_ok_pools: "game_ok gm \<Longrightarrow> pools_ok (particleSystems gm)"
  by (simp add: game_ok_def pools_ok_def)

lemma game_ok_orbs: "game_ok gm \<Longrightarrow> list_all (\<lambda>orb. valid_type (otype orb)) (fallingOrbs gm)"
  by (simp add: game_ok_def)

lemma game_okI:
  "pools_ok (particleSystems gm) \<Longrightarrow> list_all (\<lambda>orb. valid_type (otype orb)) (fallingOrbs gm)
   \<Longrightarrow> valid_type (currentType (playerBasket gm)) \<Longrightarrow> game_ok gm"
  by (simp add: game_ok_def pools_ok_def)

lemma foldl_burst_ok:
  "pools_ok (fst acc) \<Longrightarrow> list_all (\<lambda>orb. valid_type (otype orb)) orbs
   \<Longrightarrow> pools_ok (fst (foldl (\<lambda>acc orb. burst (f orb) orb acc) acc orbs))"
proof (induction orbs arbitrary: acc)
  case Nil
  then show ?case by simp
next
  case (Cons orb rest)
  from Cons.prems have "pools_ok (fst (burst (f orb) orb acc))"
    by (simp add: burst_pools_ok)
  with Cons.IH [of "burst (f orb) orb acc"] Cons.prems show ?case by simp
qed

lemma list_all_filter: "list_all P xs \<Longrightarrow> list_all P (filter Q xs)"
  by (simp add: list_all_iff)

text \<open>The fields a step leaves alone.\<close>

lemma updateOrbs_ok:
  assumes "game_ok gm"
  shows "\<exists>gm1 g1. updateOrbs dt clock g gm = Some (gm1, g1) \<and> game_ok gm1 \<and>
           gm1 = gm\<lparr>fallingOrbs := fallingOrbs gm1, particleSystems := particleSystems gm1\<rparr>"
proof -
  from update_orbs_ok [OF game_ok_pools [OF assms] game_ok_orbs [OF assms], of dt clock g]
  obtain orbs' pools' g' where
    u: "update_orbs dt clock g (fallingOrbs gm) gm = Some (orbs', gm\<lparr>particleSystems := pools'\<rparr>, g')"
    and ok: "pools_ok pools'" and v: "list_all (\<lambda>orb. valid_type (otype orb)) orbs'"
    by blast
  let ?gm1 = "gm\<lparr>particleSystems := pools', fallingOrbs := orbs'\<rparr>"
  from u have "updateOrbs dt clock g gm = Some (?gm1, g')" by (simp add: updateOrbs_def)
  moreover from ok v assms have "game_ok ?gm1" by (simp add: game_ok_def pools_ok_def)
  moreover have "?gm1 = gm\<lparr>fallingOrbs := fallingOrbs ?gm1, particleSystems := particleSystems ?gm1\<rparr>"
    by simp
  ultimately show ?thesis by blast
qed

lemma removeOffScreen_eq:
  "removeOffScreen gm =
     gm\<lparr>fallingOrbs := filter (\<lambda>orb. \<not> isOffScreen orb (- (real_of_int (screenHeight gm) / 2))) (fallingOrbs gm),
        score := score gm - 2 * int (length (filter (\<lambda>orb. isOffScreen orb (- (real_of_int (screenHeight gm) / 2))) (fallingOrbs gm))),
        lastDestroyedOrbColor := foldl (\<lambda>c orb. getOrbColor (otype orb)) (lastDestroyedOrbColor gm)
            (filter (\<lambda>orb. isOffScreen orb (- (real_of_int (screenHeight gm) / 2))) (fallingOrbs gm))\<rparr>"
  by (simp add: removeOffScreen_def remove_offscreen_eq)

lemma removeOffScreen_ok: "game_ok gm \<Longrightarrow> game_ok (removeOffScreen gm)"
  by (simp add: removeOffScreen_eq game_ok_def list_all_filter)

lemma uniform_int_valid: "valid_type (uniform_int 0 (NUM_ELEMENT_TYPES - 1) r)"
  by (simp add: uniform_int_def valid_type_def)

lemma Orb_new_otype: "otype (fst (Orb_new x y w h t s g)) = t"
  by (simp add: Orb_new_def)

lemma spawnOrb_eq:
  "\<exists>newOrb. fst (spawnOrb g gm) = gm\<lparr>fallingOrbs := fallingOrbs gm @ [newOrb]\<rparr> \<and> valid_type (otype newOrb)"
proof -
  let ?new = "Orb_new (uniform_real (- (real_of_int (screenWidth gm) / 2) + 30)
                                 (real_of_int (screenWidth gm) / 2 - 30) (g 1))
                (real_of_int (screenHeight gm) / 2 + 60 / 2) 60 60
                (uniform_int 0 (NUM_ELEMENT_TYPES - 1) (g 0)) (orbFallSpeed gm) (drop_gen 2 g)"
  have "fst (spawnOrb g gm) = gm\<lparr>fallingOrbs := fallingOrbs gm @ [fst ?new]\<rparr>"
    by (simp add: spawnOrb_def Let_def split: prod.splits)
  moreover have "valid_type (otype (fst ?new))"
    unfolding Orb_new_otype by (rule uniform_int_valid)
  ultimately show ?thesis by blast
qed

lemma spawnStep_ok:
  assumes "game_ok gm"
  shows "game_ok (fst (spawnStep dt g gm)) \<and>
         fst (spawnStep dt g gm) = gm\<lparr>fallingOrbs := fallingOrbs (fst (spawnStep dt g gm)),
                                       orbSpawnTimer := orbSpawnTimer (fst (spawnStep dt g gm))\<rparr>"
proof (cases "orbSpawnTimer gm + dt \<ge> orbSpawnInterval gm")
  case True
  let ?gm1 = "gm\<lparr>orbSpawnTimer := orbSpawnTimer gm + dt\<rparr>"
  from spawnOrb_eq [of g ?gm1] obtain newOrb where
    s: "fst (spawnOrb g ?gm1) = ?gm1\<lparr>fallingOrbs := fallingOrbs ?gm1 @ [newOrb]\<rparr>"
    and v: "valid_type (otype newOrb)" by blast
  from True have "fst (spawnStep dt g gm) = (fst (spawnOrb g ?gm1))\<lparr>orbSpawnTimer := 0\<rparr>"
    by (simp add: spawnStep_def Let_def split: prod.splits)
  with s have "fst (spawnStep dt g gm) = gm\<lparr>fallingOrbs := fallingOrbs gm @ [newOrb], orbSpawnTimer := 0\<rparr>"
    by simp
  with assms v show ?thesis by (simp add: game_ok_def)
next
  case False
  then have "fst (spawnStep dt g gm) = gm\<lparr>orbSpawnTimer := orbSpawnTimer gm + dt\<rparr>"
    by (simp add: spawnStep_def Let_def)
  with assms show ?thesis by (simp add: game_ok_def)
qed

lemma checkCollisions_eq:
  assumes "game_ok gm"
  shows "checkCollisions g gm =
     Some (gm\<lparr>fallingOrbs := filter (\<lambda>orb. \<not> hits (playerBasket gm) orb) (fallingOrbs gm),
              score := score gm + sum_list (map (catch_reward (playerBasket gm)) (filter (hits (playerBasket gm)) (fallingOrbs gm))),
              lastDestroyedOrbColor := foldl (\<lambda>c orb. getOrbColor (otype orb)) (lastDestroyedOrbColor gm)
                 (filter (hits (playerBasket gm)) (fallingOrbs gm)),
              particleSystems := fst (foldl (\<lambda>acc orb. burst (catch_burst (playerBasket gm) orb) orb acc)
                 (particleSystems gm, g) (filter (hits (playerBasket gm)) (fallingOrbs gm)))\<rparr>,
           snd (foldl (\<lambda>acc orb. burst (catch_burst (playerBasket gm) orb) orb acc)
                 (particleSystems gm, g) (filter (hits (playerBasket gm)) (fallingOrbs gm))))"
  using collide_orbs_eq [OF game_ok_pools [OF assms] game_ok_orbs [OF assms], of g]
  by (simp add: checkCollisions_def)

lemma checkCollisions_ok:
  assumes "game_ok gm"
  shows "\<exists>gm1 g1. checkCollisions g gm = Some (gm1, g1) \<and> game_ok gm1 \<and>
           gm1 = gm\<lparr>fallingOrbs := fallingOrbs gm1, score := score gm1,
                     lastDestroyedOrbColor := lastDestroyedOrbColor gm1,
                     particleSystems := particleSystems gm1\<rparr>"
proof -
  have "pools_ok (fst (foldl (\<lambda>acc orb. burst (catch_burst (playerBasket gm) orb) orb acc)
                 (particleSystems gm, g) (filter (hits (playerBasket gm)) (fallingOrbs gm))))"
    using game_ok_pools [OF assms] game_ok_orbs [OF assms]
    by (intro foldl_burst_ok list_all_filter) simp_all
  with assms show ?thesis
    unfolding checkCollisions_eq [OF assms]
    by (simp add: game_ok_def pools_ok_def list_all_filter)
qed

lemma updateParticleSystems_ok: "game_ok gm \<Longrightarrow> game_ok (updateParticleSystems dt gm)"
  by (simp add: updateParticleSystems_def game_ok_def list_all_iff update_pool_ok)

lemma checkThresholds_ok: "game_ok gm \<Longrightarrow> game_ok (checkThresholds gm)"
  by (simp add: checkThresholds_def game_ok_def Let_def)


lemma frame_events_ok:
  assumes "game_ok gm"
  shows "\<exists>gm1 g1. frame_events dt clock g gm = Some (gm1, g1) \<and> game_ok gm1 \<and>
           currentState gm1 = currentState gm"
proof -
  from updateOrbs_ok [OF assms, of dt clock g] obtain gmA gA where
    a: "updateOrbs dt clock g gm = Some (gmA, gA)" and okA: "game_ok gmA"
    and eA: "gmA = gm\<lparr>fallingOrbs := fallingOrbs gmA, particleSystems := particleSystems gmA\<rparr>"
    by blast
  have sA: "currentState gmA = currentState gm" by (subst eA) simp
  let ?gmB = "removeOffScreen gmA"
  have okB: "game_ok ?gmB" using okA by (rule removeOffScreen_ok)
  have sB: "currentState ?gmB = currentState gmA" by (simp add: removeOffScreen_eq)
  obtain gmC gC where c: "spawnStep dt gA ?gmB = (gmC, gC)" by (cases "spawnStep dt gA ?gmB")
  from spawnStep_ok [OF okB, of dt gA] c have okC: "game_ok gmC"
    and eC: "gmC = ?gmB\<lparr>fallingOrbs := fallingOrbs gmC, orbSpawnTimer := orbSpawnTimer gmC\<rparr>"
    by simp_all
  have sC: "currentState gmC = currentState ?gmB" by (subst eC) simp
  from checkCollisions_ok [OF okC, of gC] obtain gmD gD where
    d: "checkCollisions gC gmC = Some (gmD, gD)" and okD: "game_ok gmD"
    and eD: "gmD = gmC\<lparr>fallingOrbs := fallingOrbs gmD, score := score gmD,
                     lastDestroyedOrbColor := lastDestroyedOrbColor gmD,
                     particleSystems := particleSystems gmD\<rparr>"
    by blast
  have sD: "currentState gmD = currentState gmC" by (subst eD) simp
  have "frame_events dt clock g gm = Some (updateParticleSystems dt gmD, gD)"
    using a c d by (simp add: frame_events_def)
  moreover have "game_ok (updateParticleSystems dt gmD)" using okD by (rule updateParticleSystems_ok)
  moreover have "currentState (updateParticleSystems dt gmD) = currentState gm"
    using sA sB sC sD by (simp add: updateParticleSystems_def)
  ultimately show ?thesis by blast
qed

lemma update_ok:
  assumes "game_ok gm"
  shows "\<exists>gm1 g1. update dt clock g gm = Some (gm1, g1) \<and> game_ok gm1"
proof (cases "currentState gm = RUNNING")
  case True
  from frame_events_ok [OF assms, of dt clock g] obtain gm1 g1 where
    "frame_events dt clock g gm = Some (gm1, g1)" "game_ok gm1" by blast
  with True show ?thesis by (simp add: update_def checkThresholds_ok)
next
  case False
  with assms show ?thesis by (simp add: update_def updateParticleSystems_ok)
qed

lemma Particle_update_active: "active (Particle_update dt p) \<Longrightarrow> active p"
  by (simp add: Particle_update_def Let_def split: if_splits)

lemma new_game_ok: "game_ok (Game_new w h)"
  by (simp add: game_ok_def Game_new_def new_pool_ok Basket_new_def valid_type_def)

lemma changeType_valid:
  "valid_type (currentType b) \<Longrightarrow> d = 1 \<or> d = - 1 \<Longrightarrow> valid_type (currentType (changeType d b))"
proof -
  assume v: "valid_type (currentType b)" and d: "d = 1 \<or> d = - 1"
  then have "0 \<le> currentType b + d + 4" by (auto simp: valid_type_def)
  from smod_nonneg [OF this, of 4] show ?thesis
    by (simp add: changeType_def valid_type_def)
qed

lemma scrollCallback_ok: "game_ok gm \<Longrightarrow> game_ok (scrollCallback y gm)"
  by (simp add: scrollCallback_def game_ok_def changeType_valid)

lemma resetGame_ok: "game_ok gm \<Longrightarrow> game_ok (resetGame gm)"
  by (simp add: resetGame_def game_ok_def valid_type_def)

lemma setScreenDimensions_ok: "game_ok gm \<Longrightarrow> game_ok (setScreenDimensions w h gm)"
  by (simp add: setScreenDimensions_def game_ok_def Let_def setPosition_def)

lemma processInput_ok: "game_ok gm \<Longrightarrow> game_ok (processInput keys dt gm)"
  by (simp add: processInput_def game_ok_def Let_def setPosition_def moveLeft_def moveRight_def
      resetGame_def valid_type_def split: prod.splits)

lemmas eval_demo =
  demo_game_def demo_orb_def Game_new_def Basket_new_def Orb_new_def zero_gen_def
  uniform_real_def drop_gen_def hits_def checkAABBCollision_def o_getLeft_def o_getBottom_def
  b_getLeft_def b_getBottom_def isOffScreen_def Let_def

lemma demo_game_ok: "game_ok demo_game"
  by (simp add: game_ok_def demo_game_def demo_orb_def Game_new_def new_pool_ok Basket_new_def
      Orb_new_def valid_type_def)

lemma demo_hits:
  "hits (playerBasket demo_game) (demo_orb EARTH 0 (- 324))"
  "hits (playerBasket demo_game) (demo_orb FIRE 30 (- 300))"
  "\<not> hits (playerBasket demo_game) (demo_orb WATER 0 (- 500))"
  "\<not> hits (playerBasket demo_game) (demo_orb AIR 400 200)"
  by (simp_all add: eval_demo)

lemma demo_offscreen:
  "\<not> isOffScreen (demo_orb EARTH 0 (- 324)) (- (real_of_int (screenHeight demo_game) / 2))"
  "\<not> isOffScreen (demo_orb FIRE 30 (- 300)) (- (real_of_int (screenHeight demo_game) / 2))"
  "isOffScreen (demo_orb WATER 0 (- 500)) (- (real_of_int (screenHeight demo_game) / 2))"
  "\<not> isOffScreen (demo_orb AIR 400 200) (- (real_of_int (screenHeight demo_game) / 2))"
  by (simp_all add: eval_demo)

lemma demo_fields:
  "fallingOrbs demo_game = [demo_orb EARTH 0 (- 324), demo_orb FIRE 30 (- 300),
                             demo_orb WATER 0 (- 500), demo_orb AIR 400 200]"
  "score demo_game = 0" "currentState demo_game = RUNNING"
  "currentType (playerBasket demo_game) = EARTH"
  "otype (demo_orb t x y) = t"
  by (simp_all add: demo_game_def Game_new_def Basket_new_def demo_orb_def Orb_new_def)

lemma advance_orb_ok:
  assumes "pools_ok (particleSystems gm)" and "valid_type (otype orb)"
  shows "\<exists>orb' gm'. advance_orb steps orb gm = Some (orb', gm') \<and>
           y_of orb' = y_of orb - fallSpeed orb * sum_list (map fst steps) \<and>
           fallSpeed orb' = fallSpeed orb \<and> otype orb' = otype orb \<and>
           pools_ok (particleSystems gm')"
  using assms
proof (induction steps arbitrary: orb gm)
  case Nil
  then show ?case by simp
next
  case (Cons step steps)
  obtain dt now g where st: "step = (dt, now, g)" by (cases step)
  from Orb_update_ok [OF Cons.prems, of dt now g]
  obtain orb1 pools1 g1 where
    u: "Orb_update dt now g orb gm = Some (orb1, gm\<lparr>particleSystems := pools1\<rparr>, g1)"
    and ok1: "pools_ok pools1" and t1: "otype orb1 = otype orb" and f1: "fallSpeed orb1 = fallSpeed orb"
    and y1: "y_of orb1 = y_of orb - fallSpeed orb * dt"
    by blast
  let ?gm1 = "gm\<lparr>particleSystems := pools1\<rparr>"
  from ok1 have p: "pools_ok (particleSystems ?gm1)" by simp
  from t1 Cons.prems(2) have v: "valid_type (otype orb1)" by simp
  from Cons.IH [OF p v] obtain orb' gm' where
    r: "advance_orb steps orb1 ?gm1 = Some (orb', gm')"
    and y: "y_of orb' = y_of orb1 - fallSpeed orb1 * sum_list (map fst steps)"
    and f: "fallSpeed orb' = fallSpeed orb1" and t: "otype orb' = otype orb1"
    and ok: "pools_ok (particleSystems gm')"
    by blast
  from y y1 f1 have "y_of orb' = y_of orb - fallSpeed orb * sum_list (map fst (step # steps))"
    by (simp add: st algebra_simps)
  with u r f f1 t t1 ok show ?case by (simp add: st)
qed

lemma lost_game_fields:
  "currentState lost_game = GAME_OVER_LOSE" "score lost_game = - 6" "fallingOrbs lost_game = []"
  by (simp_all add: lost_game_def Game_new_def)

lemma near_win_ok: "game_ok near_win_game"
  by (simp add: game_ok_def near_win_game_def demo_orb_def Game_new_def new_pool_ok Basket_new_def
      Orb_new_def valid_type_def)

lemma near_win_orbs:
  "updateOrbs 0 (\<lambda>_. 0) zero_gen near_win_game = Some (near_win_game, zero_gen)"
  by (simp add: updateOrbs_def Orb_update_def near_win_game_def demo_orb_def Orb_new_def
      Game_new_def zero_gen_def uniform_real_def Let_def drop_gen_def)

lemma near_win_spawn:
  "spawnStep 0 zero_gen (removeOffScreen near_win_game) = (near_win_game, zero_gen)"
  by (simp add: removeOffScreen_eq spawnStep_def Let_def near_win_game_def demo_orb_def Orb_new_def
      Game_new_def zero_gen_def uniform_real_def drop_gen_def isOffScreen_def)

lemma near_win_frame:
  "\<exists>gm1 g1. frame_events 0 (\<lambda>_. 0) zero_gen near_win_game = Some (gm1, g1) \<and> score gm1 = 103"
proof -
  have h: "hits (playerBasket near_win_game) (demo_orb EARTH 0 (- 324))"
    by (simp add: near_win_game_def eval_demo)
  have f: "fallingOrbs near_win_game = [demo_orb EARTH 0 (- 324)]" "score near_win_game = 98"
    "currentType (playerBasket near_win_game) = EARTH"
    by (simp_all add: near_win_game_def Game_new_def Basket_new_def)
  show ?thesis
    unfolding frame_events_def near_win_orbs
    by (simp add: near_win_spawn checkCollisions_eq [OF near_win_ok] updateParticleSystems_def
        f h catch_reward_def demo_fields)
qed

lemma lost_game_ok: "game_ok lost_game"
  by (simp add: game_ok_def lost_game_def Game_new_def new_pool_ok Basket_new_def valid_type_def)

lemma Orb_update_null:
  "\<not> valid_type (otype orb) \<Longrightarrow> particleEmitTimer orb + dt \<ge> particleEmitInterval orb
   \<Longrightarrow> Orb_update dt now g orb gm = None"
  by (auto simp: Orb_update_def getParticleSystem_def valid_type_def Let_def split: prod.splits)

lemma filter_count_update:
  assumes "i < length ps" and "\<not> P (ps ! i)" and "P p"
  shows "length (filter P (ps[i := p])) = Suc (length (filter P ps))"
proof -
  have a: "ps = take i ps @ ps ! i # drop (Suc i) ps"
    using assms(1) by (simp add: id_take_nth_drop)
  have b: "ps[i := p] = take i ps @ p # drop (Suc i) ps"
    using assms(1) by (simp add: upd_conv_take_nth_drop)
  have "length (filter P ps) = length (filter P (take i ps)) + length (filter P (drop (Suc i) ps))"
    by (subst a) (simp add: assms(2))
  moreover have "length (filter P (ps[i := p])) =
      Suc (length (filter P (take i ps)) + length (filter P (drop (Suc i) ps)))"
    by (subst b) (simp add: assms(3))
  ultimately show ?thesis by simp
qed

lemma filter_count_full:
  "(length (filter P xs) = length xs) = (\<forall>i < length xs. P (xs ! i))"
proof (induction xs)
  case Nil
  then show ?case by simp
next
  case (Cons x xs)
  have le: "length (filter P xs) \<le> length xs" by (rule length_filter_le)
  show ?case
  proof (cases "P x")
    case True
    with Cons.IH show ?thesis by (auto simp: nth_Cons split: nat.splits) 
  next
    case False
    have e1: "length (filter P (x # xs)) = length (filter P xs)" using False by simp
    have e2: "length (x # xs) = Suc (length xs)" by simp
    from le have "length (filter P (x # xs)) \<noteq> length (x # xs)" unfolding e1 e2 by arith
    moreover from False have "\<not> (\<forall>i < length (x # xs). P ((x # xs) ! i))"
      by (auto intro: exI [of _ 0])
    ultimately show ?thesis by blast
  qed
qed

lemma emit_loop_count:
  "pool_ok s \<Longrightarrow>
   active_count (fst (emit_loop n pos t g s)) = min (active_count s + n) (maxParticles s)"
proof (induction n arbitrary: g s)
  case 0
  then show ?case using active_count_le [of s] by simp
next
  case (Suc n)
  obtain r s1 where f: "findUnusedParticle s = (r, s1)" by (cases "findUnusedParticle s")
  show ?case
  proof (cases r)
    case None
    with f Suc.prems findUnusedParticle_None [of s s1]
    have all: "\<forall>i < maxParticles s. active (particles s ! i)" by simp
    with Suc.prems have "emit_loop (Suc n) pos t g s = (s, g)" by (rule emit_loop_full)
    moreover from all Suc.prems have "active_count s = maxParticles s"
      using filter_count_full [of active "particles s"] by (simp add: active_count_def pool_ok_def)
    ultimately show ?thesis by simp
  next
    case (Some i)
    with f Suc.prems findUnusedParticle_Some [of s i s1]
    have i: "i < maxParticles s" "\<not> active (particles s ! i)" and s1: "s1 = s\<lparr>lastUsedParticle := i\<rparr>"
      by simp_all
    obtain p g1 where ip: "init_particle pos t g (particles s1 ! i) = (p, g1)"
      by (cases "init_particle pos t g (particles s1 ! i)")
    from init_particle_active [of pos t g "particles s1 ! i"] ip have ap: "active p" by simp
    let ?s2 = "s\<lparr>lastUsedParticle := i, particles := (particles s)[i := p]\<rparr>"
    have k: "keeps_active s ?s2" using Suc.prems i by (rule keeps_active_step)
    then have ok2: "pool_ok ?s2" by (simp add: keeps_active_def)
    from i Suc.prems have "i < length (particles s)" by (simp add: pool_ok_def)
    from filter_count_update [OF this i(2) ap]
    have c2: "active_count ?s2 = Suc (active_count s)" by (simp add: active_count_def)
    from Suc.IH [OF ok2, of g1] c2
    have "active_count (fst (emit_loop n pos t g1 ?s2)) = min (active_count s + Suc n) (maxParticles s)"
      by simp
    with f Some s1 ip show ?thesis by simp
  qed
qed

lemma emit_count:
  "pool_ok s \<Longrightarrow>
   active_count (fst (emit pos count t g s)) = min (active_count s + nat count) (maxParticles s)"
  by (simp add: emit_def emit_loop_count)

lemma burst_nth:
  assumes "pools_ok (fst acc)" and "valid_type (otype orb)" and "i < 4"
  shows "active_count (fst (burst n orb acc) ! i) =
           min (active_count (fst acc ! i) + (if nat (otype orb) = i then nat n else 0))
               (maxParticles (fst acc ! i))
         \<and> maxParticles (fst (burst n orb acc) ! i) = maxParticles (fst acc ! i)"
proof -
  from assms(1,3) have ok: "pool_ok (fst acc ! i)" by (rule pools_ok_nth)
  from assms(1) have len: "length (fst acc) = 4" by (simp add: pools_ok_def)
  show ?thesis
  proof (cases "nat (otype orb) = i")
    case True
    with len assms(3) ok show ?thesis
      by (simp add: burst_def emit_count emit_maxParticles split: prod.splits)
         (metis emit_count emit_maxParticles fst_conv)
  next
    case False
    with len assms(3) ok active_count_le [OF ok] show ?thesis
      by (simp add: burst_def split: prod.splits)
  qed
qed

lemma foldl_burst_count:
  assumes "pools_ok (fst acc)" and "list_all (\<lambda>orb. valid_type (otype orb)) orbs" and "i < 4"
  shows "active_count (fst (foldl (\<lambda>acc orb. burst (f orb) orb acc) acc orbs) ! i) =
           min (active_count (fst acc ! i) +
                sum_list (map (\<lambda>orb. nat (f orb)) (filter (\<lambda>orb. nat (otype orb) = i) orbs)))
               (maxParticles (fst acc ! i))
         \<and> maxParticles (fst (foldl (\<lambda>acc orb. burst (f orb) orb acc) acc orbs) ! i) =
             maxParticles (fst acc ! i)"
  using assms(1,2)
proof (induction orbs arbitrary: acc)
  case Nil
  from Nil.prems(1) assms(3) have "pool_ok (fst acc ! i)" by (rule pools_ok_nth)
  from active_count_le [OF this] show ?case by simp
next
  case (Cons orb rest)
  from Cons.prems have v: "valid_type (otype orb)" and vr: "list_all (\<lambda>orb. valid_type (otype orb)) rest"
    by simp_all
  let ?acc1 = "burst (f orb) orb acc"
  have ok1: "pools_ok (fst ?acc1)" using Cons.prems(1) v by (rule burst_pools_ok)
  note b = burst_nth [OF Cons.prems(1) v assms(3), of "f orb"]
  note ih = Cons.IH [OF ok1 vr]
  show ?case
  proof (cases "nat (otype orb) = i")
    case True
    with b ih show ?thesis by (simp add: min_def)
  next
    case False
    with b ih show ?thesis by (simp add: min_def)
  qed
qed

lemma new_pool_count: "active_count (ParticleSystem_new n) = 0 \<and> maxParticles (ParticleSystem_new n) = n"
  by (simp add: active_count_def ParticleSystem_new_def Particle_new_def)

lemma spark_pool_eval:
  "length (particles spark_pool) = 500 \<and>
   particles spark_pool ! 0 =
     \<lparr> p_position = (0, 0, 0), p_velocity = (- 30, - 50, 0), p_color = (0.4, 0.2, 0, 1),
       life = 0, duration = 0.5, p_size = 15, active = True \<rparr>"
  by (simp add: spark_pool_def emit_def findUnusedParticle_def ParticleSystem_new_def
      scan_unused.simps [of _ 0 500] Particle_new_def init_particle_def Let_def drop_gen_def
      lifeDist_def sizeDist_def velDist_def uniform_real_def zero_gen_def)

lemma fading_game_fields:
  "currentState fading_game = GAME_OVER_LOSE" "score fading_game = - 6"
  "fallingOrbs fading_game = []"
  "particleSystems fading_game = [spark_pool, ParticleSystem_new 500, ParticleSystem_new 500,
                          ParticleSystem_new 500]"
  by (simp_all add: fading_game_def lost_game_def Game_new_def)

lemma Particle_update_active_eq:
  "active p \<Longrightarrow>
     life (Particle_update dt p) = life p + dt \<and>
     active (Particle_update dt p) = (life p + dt \<le> duration p) \<and>
     p_position (Particle_update dt p) =
       (if life p + dt \<le> duration p then vadd (p_position p) (vscale (p_velocity p) dt)
        else p_position p) \<and>
     p_velocity (Particle_update dt p) =
       (if life p + dt \<le> duration p then vscale (p_velocity p) (1 - 0.5 * dt)
        else p_velocity p) \<and>
     duration (Particle_update dt p) = duration p \<and>
     p_color (Particle_update dt p) = p_color p \<and> p_size (Particle_update dt p) = p_size p"
  by (auto simp: Particle_update_def Let_def)

lemma bad_game_fields:
  "otype bad_orb = 7" "fallingOrbs bad_game = [bad_orb]" "length (particleSystems bad_game) = 4"
  "hits (playerBasket bad_game) bad_orb"
  "particleEmitTimer bad_orb = 0" "particleEmitInterval bad_orb = 0.05"
  by (simp_all add: bad_game_def bad_orb_def eval_demo)

lemma collide_orbs_unchecked:
  "\<not> valid_type (otype orb) \<Longrightarrow> hits (playerBasket gm) orb \<Longrightarrow> length (particleSystems gm) = 4
   \<Longrightarrow> collide_orbs g (orb # rest) gm = None"
  by (auto simp: pool_index_def valid_type_def Let_def)

section \<open>The claims\<close>

subsection \<open>C5: the pool never exceeds its capacity, and a full pool drops emissions\<close>

text \<open>
  C5. The pool the constructor builds is well formed. For a well-formed pool and every sequence of \<open>emit\<close>
  and \<open>update\<close> calls, the pool stays well formed, its capacity and its number of slots do
  not change, and the number of active slots is at most the capacity. One \<open>emit\<close> call
  leaves every slot that was active exactly as it was, and when no slot is inactive it
  changes nothing at all: the request is dropped, the pool does not grow.
\<close>

theorem pool_capacity_invariant:
  assumes "pool_ok s"
  shows "pool_ok (ParticleSystem_new n) \<and>
         pool_ok (run_ops ops s) \<and>
         maxParticles (run_ops ops s) = maxParticles s \<and>
         length (particles (run_ops ops s)) = maxParticles s \<and>
         active_count (run_ops ops s) \<le> maxParticles s \<and>
         (\<forall>i < maxParticles s. active (particles s ! i) \<longrightarrow>
            particles (fst (emit pos count t g s)) ! i = particles s ! i) \<and>
         ((\<forall>i < maxParticles s. active (particles s ! i)) \<longrightarrow> emit pos count t g s = (s, g))"
proof -
  from assms have ok: "pool_ok (run_ops ops s)" and cap: "maxParticles (run_ops ops s) = maxParticles s"
    using run_ops_ok by blast+
  from ok cap have len: "length (particles (run_ops ops s)) = maxParticles s"
    by (simp add: pool_ok_def)
  from ok cap have cnt: "active_count (run_ops ops s) \<le> maxParticles s"
    using active_count_le [of "run_ops ops s"] by simp
  from assms have "keeps_active s (fst (emit pos count t g s))"
    unfolding emit_def by (rule emit_loop_keeps_active)
  then have keep: "\<forall>i < maxParticles s. active (particles s ! i) \<longrightarrow>
      particles (fst (emit pos count t g s)) ! i = particles s ! i"
    by (simp add: keeps_active_def)
  have full: "(\<forall>i < maxParticles s. active (particles s ! i)) \<longrightarrow> emit pos count t g s = (s, g)"
    using assms by (simp add: emit_def emit_loop_full)
  from ok cap len cnt keep full new_pool_ok [of n] show ?thesis by blast
qed

theorem pool_capacity_invariant_witness:
  "pool_ok (ParticleSystem_new 3) \<and>
   active_count (run_ops [Emit (0, 0, 0) 2 EARTH zero_gen, Advance 2] (ParticleSystem_new 3)) \<le> 3 \<and>
   length (particles (run_ops [Emit (0, 0, 0) 2 EARTH zero_gen, Advance 2] (ParticleSystem_new 3))) = 3"
proof -
  have h: "pool_ok (ParticleSystem_new 3)"
    by (simp add: pool_ok_def ParticleSystem_new_def)
  from pool_capacity_invariant [OF h, where ops = "[Emit (0, 0, 0) 2 EARTH zero_gen, Advance 2]"] h
  show ?thesis by (simp add: ParticleSystem_new_def)
qed

subsection \<open>C7: cycling the basket's type\<close>

text \<open>
  C7. For a basket whose type is one of the four element types and a direction of +1 or -1,
  \<open>changeType\<close> sets the type to (current + direction + N) mod N with N = 4 and changes no
  other field, the new type is again one of the four, and four calls with the same
  direction give back the basket that was there before.
\<close>

theorem changeType_cycle:
  assumes "valid_type (currentType b)" and "d = 1 \<or> d = - 1"
  shows "changeType d b =
           b\<lparr>currentType := (currentType b + d + NUM_ELEMENT_TYPES) mod NUM_ELEMENT_TYPES\<rparr>
       \<and> valid_type (currentType (changeType d b))
       \<and> (changeType d ^^ 4) b = b"
proof -
  define f where "f c = (c + d + NUM_ELEMENT_TYPES) smod NUM_ELEMENT_TYPES" for c
  have step: "changeType d b' = b'\<lparr>currentType := f (currentType b')\<rparr>" for b'
    by (simp add: changeType_def f_def)
  have fm: "f c = (c + d + 4) mod 4" if "0 \<le> c" for c
  proof -
    from that assms(2) have "0 \<le> c + d + 4" by auto
    from smod_nonneg [OF this, of 4] show ?thesis by (simp only: f_def) simp
  qed
  have fr: "0 \<le> f c \<and> f c < 4" if "0 \<le> c" for c
    using that by (simp add: fm)
  have c: "0 \<le> currentType b" "currentType b < 4"
    using assms(1) by (simp_all add: valid_type_def)
  have c4: "currentType b = 0 \<or> currentType b = 1 \<or> currentType b = 2 \<or> currentType b = 3"
    using c by arith
  have f4: "f (f (f (f (currentType b)))) = currentType b"
  proof (cases "d = 1")
    case True
    then have "f 0 = 1" "f 1 = 2" "f 2 = 3" "f 3 = 0"
      by (simp_all add: f_def signed_modulo_int_def)
    with c4 show ?thesis by (elim disjE) simp_all
  next
    case False
    with assms(2) have "d = - 1" by simp
    then have "f 0 = 3" "f 1 = 0" "f 2 = 1" "f 3 = 2"
      by (simp_all add: f_def signed_modulo_int_def)
    with c4 show ?thesis by (elim disjE) simp_all
  qed
  have "(changeType d ^^ 4) b = b\<lparr>currentType := f (f (f (f (currentType b))))\<rparr>"
    by (simp add: step numeral_Bit0 funpow_add numeral_2_eq_2)
  with f4 have "(changeType d ^^ 4) b = b" by simp
  moreover have "valid_type (currentType (changeType d b))"
    using c(1) fr by (simp add: step valid_type_def)
  ultimately show ?thesis using c(1) by (simp add: step fm)
qed

theorem changeType_cycle_witness:
  "valid_type (currentType demo_basket) \<and>
   currentType (changeType (- 1) demo_basket) = AIR \<and>
   (changeType (- 1) ^^ 4) demo_basket = demo_basket"
proof -
  have h: "valid_type (currentType demo_basket)"
    by (simp add: demo_basket_def Basket_new_def valid_type_def)
  have d: "(- 1 :: int) = 1 \<or> (- 1 :: int) = - 1" by simp
  from changeType_cycle [OF h d] h show ?thesis
    by (simp add: demo_basket_def Basket_new_def)
qed

subsection \<open>C9: where the search for a free slot starts\<close>

text \<open>
  C9, as stated, has the scan start at the index after the last slot activated. On the
  pool \<open>expired_pool\<close> (three inactive slots, last activated slot 1) that scan finds slot 2,
  while \<open>findUnusedParticle\<close> returns slot 1.
\<close>

theorem scan_start_counterexample:
  "fst (findUnusedParticle expired_pool) = Some 1 \<and> spec_findUnused expired_pool = Some 2 \<and>
   fst (findUnusedParticle expired_pool) \<noteq> spec_findUnused expired_pool"
proof -
  have i1: "\<not> active (particles expired_pool ! 1)" and i2: "\<not> active (particles expired_pool ! 2)"
    by (simp_all add: expired_pool_inactive)
  have "scan_unused (particles expired_pool) 1 3 = Some 1"
    using i1 by (simp add: scan_unused_find upt_rec numeral_3_eq_3)
  then have a: "fst (findUnusedParticle expired_pool) = Some 1"
    using expired_pool_eval by (simp add: findUnusedParticle_def)
  have "spec_scan_order expired_pool = [2, 0, 1]"
    using expired_pool_eval by (simp add: spec_scan_order_def upt_rec numeral_3_eq_3 numeral_2_eq_2)
  then have b: "spec_findUnused expired_pool = Some 2"
    using i2 by (simp add: spec_findUnused_def)
  from a b show ?thesis by simp
qed

text \<open>
  C9, amended. The scan of \<open>findUnusedParticle\<close> starts at \<open>lastUsedParticle\<close> itself (the
  last slot activated, or 0 in a new pool), runs to the end of the pool and then from 0 up
  to \<open>lastUsedParticle\<close>; it returns the first inactive slot in that order and records it
  as \<open>lastUsedParticle\<close>, or reports that there is none and changes nothing. Each of the
  \<open>count\<close> iterations of \<open>emit\<close> activates and initialises the slot so found, and an
  iteration whose scan finds none is skipped; a count of zero or less emits nothing.
\<close>

theorem findUnusedParticle_scan:
  "findUnusedParticle s =
     (case find (\<lambda>i. \<not> active (particles s ! i))
             ([lastUsedParticle s..<maxParticles s] @ [0..<lastUsedParticle s]) of
        Some i \<Rightarrow> (Some i, s\<lparr>lastUsedParticle := i\<rparr>)
      | None \<Rightarrow> (None, s)) \<and>
   emit pos (1 + int n) t g s =
     (case fst (findUnusedParticle s) of
        Some i \<Rightarrow>
          emit pos (int n) t (snd (init_particle pos t g (particles s ! i)))
            (s\<lparr>lastUsedParticle := i,
               particles := (particles s)[i := fst (init_particle pos t g (particles s ! i))]\<rparr>)
      | None \<Rightarrow> emit pos (int n) t g s) \<and>
   active (fst (init_particle pos t g p)) \<and>
   emit pos (- int n) t g s = (s, g)"
proof -
  have a: "findUnusedParticle s =
     (case find (\<lambda>i. \<not> active (particles s ! i))
             ([lastUsedParticle s..<maxParticles s] @ [0..<lastUsedParticle s]) of
        Some i \<Rightarrow> (Some i, s\<lparr>lastUsedParticle := i\<rparr>)
      | None \<Rightarrow> (None, s))"
    by (simp add: findUnusedParticle_def scan_unused_find find_app split: option.splits)
  have n: "nat (1 + int n) = Suc n" by simp
  have b: "emit pos (1 + int n) t g s =
     (case fst (findUnusedParticle s) of
        Some i \<Rightarrow>
          emit pos (int n) t (snd (init_particle pos t g (particles s ! i)))
            (s\<lparr>lastUsedParticle := i,
               particles := (particles s)[i := fst (init_particle pos t g (particles s ! i))]\<rparr>)
      | None \<Rightarrow> emit pos (int n) t g s)"
    unfolding emit_def n
    by (auto simp: findUnusedParticle_def split: option.splits prod.splits)
  have c: "emit pos (- int n) t g s = (s, g)" by (simp add: emit_def)
  from a b c init_particle_active show ?thesis by blast
qed

theorem findUnusedParticle_scan_witness:
  "findUnusedParticle expired_pool = (Some 1, expired_pool) \<and>
   emit (0, 0, 0) 0 EARTH zero_gen expired_pool = (expired_pool, zero_gen)"
proof -
  have i1: "\<not> active (particles expired_pool ! 1)"
    by (simp add: expired_pool_inactive)
  have o: "[lastUsedParticle expired_pool..<maxParticles expired_pool] @
           [0..<lastUsedParticle expired_pool] = [1, 2, 0]"
    using expired_pool_eval by (simp add: upt_rec numeral_3_eq_3 numeral_2_eq_2)
  have l: "expired_pool\<lparr>lastUsedParticle := 1\<rparr> = expired_pool"
    using expired_pool_eval by simp
  from findUnusedParticle_scan [of expired_pool "(0, 0, 0)" 0 EARTH zero_gen Particle_new]
  have "findUnusedParticle expired_pool =
     (case find (\<lambda>i. \<not> active (particles expired_pool ! i)) [1, 2, 0] of
        Some i \<Rightarrow> (Some i, expired_pool\<lparr>lastUsedParticle := i\<rparr>)
      | None \<Rightarrow> (None, expired_pool))"
    and "emit (0, 0, 0) (- int 0) EARTH zero_gen expired_pool = (expired_pool, zero_gen)"
    unfolding o by blast+
  with i1 l show ?thesis by simp
qed

subsection \<open>C1: collision resolution\<close>

text \<open>
  C1. In a game whose element types are all in range (as in every reachable state),
  \<open>checkCollisions\<close> returns, and in its result: the live orbs are exactly the orbs that did
  not overlap the basket, in their order; the score has grown by the sum over the
  overlapping orbs of +5 for an orb of the basket's type and -2 for any other; the pools
  are the result of one \<open>emit\<close> call for each overlapping orb, in order, at the orb's
  position into the pool of the orb's type, of 50 particles for a match and 20 otherwise.
  The bursts show as active slots: the pool of each type has as many more active slots as
  the bursts of the overlapping orbs of that type ask for, up to its capacity, which does
  not change. The basket and the game state are unchanged.
\<close>

theorem checkCollisions_catches:
  assumes "game_ok gm"
  shows "\<exists>gm' g'. checkCollisions g gm = Some (gm', g') \<and>
     fallingOrbs gm' = filter (\<lambda>orb. \<not> hits (playerBasket gm) orb) (fallingOrbs gm) \<and>
     score gm' = score gm + sum_list (map (catch_reward (playerBasket gm))
                                      (filter (hits (playerBasket gm)) (fallingOrbs gm))) \<and>
     (particleSystems gm', g') =
        foldl (\<lambda>acc orb. burst (catch_burst (playerBasket gm) orb) orb acc)
          (particleSystems gm, g) (filter (hits (playerBasket gm)) (fallingOrbs gm)) \<and>
     (\<forall>i < 4.
        active_count (particleSystems gm' ! i) =
          min (active_count (particleSystems gm ! i) +
               sum_list (map (\<lambda>orb. nat (catch_burst (playerBasket gm) orb))
                 (filter (\<lambda>orb. nat (otype orb) = i)
                    (filter (hits (playerBasket gm)) (fallingOrbs gm)))))
              (maxParticles (particleSystems gm ! i)) \<and>
        maxParticles (particleSystems gm' ! i) = maxParticles (particleSystems gm ! i)) \<and>
     playerBasket gm' = playerBasket gm \<and> currentState gm' = currentState gm \<and>
     (\<forall>orb. catch_reward (playerBasket gm) orb =
              (if otype orb = currentType (playerBasket gm) then 5 else - 2) \<and>
            catch_burst (playerBasket gm) orb =
              (if otype orb = currentType (playerBasket gm) then 50 else 20))"
proof -
  let ?caught = "filter (hits (playerBasket gm)) (fallingOrbs gm)"
  let ?acc = "foldl (\<lambda>acc orb. burst (catch_burst (playerBasket gm) orb) orb acc)
          (particleSystems gm, g) ?caught"
  have v: "list_all (\<lambda>orb. valid_type (otype orb)) ?caught"
    using game_ok_orbs [OF assms] by (rule list_all_filter)
  have p: "pools_ok (fst (particleSystems gm, g))"
    using game_ok_pools [OF assms] by simp
  have cnt: "\<forall>i < 4.
        active_count (fst ?acc ! i) =
          min (active_count (particleSystems gm ! i) +
               sum_list (map (\<lambda>orb. nat (catch_burst (playerBasket gm) orb))
                 (filter (\<lambda>orb. nat (otype orb) = i) ?caught)))
              (maxParticles (particleSystems gm ! i)) \<and>
        maxParticles (fst ?acc ! i) = maxParticles (particleSystems gm ! i)"
    using foldl_burst_count [OF p v, of _ "catch_burst (playerBasket gm)"] by simp
  show ?thesis
    unfolding checkCollisions_eq [OF assms]
    using cnt by (simp add: catch_reward_def catch_burst_def)
qed

theorem checkCollisions_catches_witness:
  "game_ok demo_game \<and>
   (\<exists>gm' g'. checkCollisions zero_gen demo_game = Some (gm', g') \<and> score gm' = 3 \<and>
      fallingOrbs gm' = [demo_orb WATER 0 (- 500), demo_orb AIR 400 200] \<and>
      active_count (particleSystems gm' ! 0) = 50 \<and>
      active_count (particleSystems gm' ! 1) = 0 \<and>
      active_count (particleSystems gm' ! 2) = 20 \<and>
      active_count (particleSystems gm' ! 3) = 0)"
proof -
  let ?caught = "filter (hits (playerBasket demo_game)) (fallingOrbs demo_game)"
  from checkCollisions_catches [OF demo_game_ok, of zero_gen]
  obtain gm' g' where c: "checkCollisions zero_gen demo_game = Some (gm', g')"
    and o: "fallingOrbs gm' = filter (\<lambda>orb. \<not> hits (playerBasket demo_game) orb) (fallingOrbs demo_game)"
    and s: "score gm' = score demo_game + sum_list (map (catch_reward (playerBasket demo_game)) ?caught)"
    and a: "\<forall>i < 4.
        active_count (particleSystems gm' ! i) =
          min (active_count (particleSystems demo_game ! i) +
               sum_list (map (\<lambda>orb. nat (catch_burst (playerBasket demo_game) orb))
                 (filter (\<lambda>orb. nat (otype orb) = i) ?caught)))
              (maxParticles (particleSystems demo_game ! i)) \<and>
        maxParticles (particleSystems gm' ! i) = maxParticles (particleSystems demo_game ! i)"
    by blast
  have ca: "?caught = [demo_orb EARTH 0 (- 324), demo_orb FIRE 30 (- 300)]"
    by (simp add: demo_fields demo_hits)
  have pl: "particleSystems demo_game = [ParticleSystem_new 500, ParticleSystem_new 500,
                          ParticleSystem_new 500, ParticleSystem_new 500]"
    by (simp add: demo_game_def Game_new_def)
  from o have "fallingOrbs gm' = [demo_orb WATER 0 (- 500), demo_orb AIR 400 200]"
    by (simp add: demo_fields demo_hits)
  moreover from s have "score gm' = 3"
    by (simp add: demo_fields demo_hits catch_reward_def)
  moreover from a have "active_count (particleSystems gm' ! 0) = 50"
    "active_count (particleSystems gm' ! 1) = 0"
    "active_count (particleSystems gm' ! 2) = 20"
    "active_count (particleSystems gm' ! 3) = 0"
    unfolding ca pl by (simp_all add: new_pool_count demo_fields catch_burst_def)
  ultimately show ?thesis using c demo_game_ok by blast
qed

subsection \<open>C3: the off-screen pass\<close>

text \<open>
  C3. The off-screen pass removes exactly the orbs for which \<open>isOffScreen\<close> holds at the
  bottom edge, keeps the others in order, lowers the score by 2 for each orb removed and
  leaves every particle pool as it was. The 2 is the penalty of a mismatched catch: a
  single overlapping orb of another type than the basket's takes the score down by 2 in
  \<open>checkCollisions\<close>. In a frame the pass comes after the orbs have advanced and before
  the spawn step, whose result is what collision resolution sees.
\<close>

theorem offscreen_pass:
  "removeOffScreen gm =
     gm\<lparr>fallingOrbs := filter (\<lambda>orb. \<not> isOffScreen orb (- (real_of_int (screenHeight gm) / 2)))
                          (fallingOrbs gm),
        score := score gm - 2 * int (length (filter
                   (\<lambda>orb. isOffScreen orb (- (real_of_int (screenHeight gm) / 2))) (fallingOrbs gm))),
        lastDestroyedOrbColor := foldl (\<lambda>c orb. getOrbColor (otype orb)) (lastDestroyedOrbColor gm)
            (filter (\<lambda>orb. isOffScreen orb (- (real_of_int (screenHeight gm) / 2))) (fallingOrbs gm))\<rparr> \<and>
   particleSystems (removeOffScreen gm) = particleSystems gm \<and>
   (game_ok gm \<and> valid_type (otype orb) \<and> hits (playerBasket gm) orb \<and>
    otype orb \<noteq> currentType (playerBasket gm) \<longrightarrow>
      (\<exists>gm' g'. collide_orbs g [orb] gm = Some ([], gm', g') \<and> score gm' = score gm - 2)) \<and>
   frame_events dt clock g gm =
     (case updateOrbs dt clock g gm of
        None \<Rightarrow> None
      | Some (gm1, g1) \<Rightarrow>
          (case checkCollisions (snd (spawnStep dt g1 (removeOffScreen gm1)))
                  (fst (spawnStep dt g1 (removeOffScreen gm1))) of
             None \<Rightarrow> None
           | Some (gm3, g3) \<Rightarrow> Some (updateParticleSystems dt gm3, g3))) \<and>
   (currentState gm = RUNNING \<longrightarrow>
      update dt clock g gm =
        (case frame_events dt clock g gm of
           None \<Rightarrow> None
         | Some (gm1, g1) \<Rightarrow> Some (checkThresholds gm1, g1)))"
proof -
  have a: "particleSystems (removeOffScreen gm) = particleSystems gm"
    by (simp add: removeOffScreen_eq)
  have b: "\<exists>gm' g'. collide_orbs g [orb] gm = Some ([], gm', g') \<and> score gm' = score gm - 2"
    if "game_ok gm" "valid_type (otype orb)" "hits (playerBasket gm) orb"
       "otype orb \<noteq> currentType (playerBasket gm)"
    using collide_orbs_eq [OF game_ok_pools [OF that(1)], of "[orb]" g] that(2-4)
    by (simp add: catch_reward_def)
  have c: "frame_events dt clock g gm =
     (case updateOrbs dt clock g gm of
        None \<Rightarrow> None
      | Some (gm1, g1) \<Rightarrow>
          (case checkCollisions (snd (spawnStep dt g1 (removeOffScreen gm1)))
                  (fst (spawnStep dt g1 (removeOffScreen gm1))) of
             None \<Rightarrow> None
           | Some (gm3, g3) \<Rightarrow> Some (updateParticleSystems dt gm3, g3)))"
    by (simp add: frame_events_def split: option.splits prod.splits)
  have d: "currentState gm = RUNNING \<longrightarrow>
      update dt clock g gm =
        (case frame_events dt clock g gm of
           None \<Rightarrow> None
         | Some (gm1, g1) \<Rightarrow> Some (checkThresholds gm1, g1))"
    by (simp add: update_def)
  from removeOffScreen_eq [of gm] a b c d show ?thesis by blast
qed

theorem offscreen_pass_witness:
  "fallingOrbs (removeOffScreen demo_game) =
     [demo_orb EARTH 0 (- 324), demo_orb FIRE 30 (- 300), demo_orb AIR 400 200] \<and>
   score (removeOffScreen demo_game) = - 2 \<and>
   particleSystems (removeOffScreen demo_game) = particleSystems demo_game \<and>
   game_ok demo_game \<and> valid_type (otype (demo_orb FIRE 30 (- 300))) \<and>
   hits (playerBasket demo_game) (demo_orb FIRE 30 (- 300)) \<and>
   otype (demo_orb FIRE 30 (- 300)) \<noteq> currentType (playerBasket demo_game) \<and>
   (\<exists>gm' g'. collide_orbs zero_gen [demo_orb FIRE 30 (- 300)] demo_game = Some ([], gm', g') \<and>
      score gm' = - 2) \<and>
   currentState demo_game = RUNNING"
proof -
  note t = offscreen_pass [of demo_game "demo_orb FIRE 30 (- 300)" zero_gen 0 "\<lambda>_. 0"]
  have v: "valid_type (otype (demo_orb FIRE 30 (- 300)))"
    by (simp add: demo_fields valid_type_def)
  have n: "otype (demo_orb FIRE 30 (- 300)) \<noteq> currentType (playerBasket demo_game)"
    by (simp add: demo_fields)
  from t have "removeOffScreen demo_game =
     demo_game\<lparr>fallingOrbs := filter (\<lambda>orb. \<not> isOffScreen orb (- (real_of_int (screenHeight demo_game) / 2)))
                          (fallingOrbs demo_game),
        score := score demo_game - 2 * int (length (filter
                   (\<lambda>orb. isOffScreen orb (- (real_of_int (screenHeight demo_game) / 2))) (fallingOrbs demo_game))),
        lastDestroyedOrbColor := foldl (\<lambda>c orb. getOrbColor (otype orb)) (lastDestroyedOrbColor demo_game)
            (filter (\<lambda>orb. isOffScreen orb (- (real_of_int (screenHeight demo_game) / 2))) (fallingOrbs demo_game))\<rparr>"
    by blast
  then have r: "fallingOrbs (removeOffScreen demo_game) =
     [demo_orb EARTH 0 (- 324), demo_orb FIRE 30 (- 300), demo_orb AIR 400 200]"
    "score (removeOffScreen demo_game) = - 2"
    by (simp_all add: demo_fields demo_offscreen)
  from t have p: "particleSystems (removeOffScreen demo_game) = particleSystems demo_game"
    by blast
  from t demo_game_ok v n demo_hits(2)
  have "\<exists>gm' g'. collide_orbs zero_gen [demo_orb FIRE 30 (- 300)] demo_game = Some ([], gm', g') \<and>
      score gm' = score demo_game - 2"
    by blast
  then have c: "\<exists>gm' g'. collide_orbs zero_gen [demo_orb FIRE 30 (- 300)] demo_game = Some ([], gm', g') \<and>
      score gm' = - 2"
    by (simp add: demo_fields)
  from r p c demo_game_ok v n demo_hits(2) demo_fields(3) show ?thesis by blast
qed

subsection \<open>C8: constant-rate descent\<close>

text \<open>
  C8. Over the reals, any sequence of \<open>Orb::update\<close> calls on an orb of a valid type lowers
  its ordinate by \<open>fallSpeed\<close> times the sum of the elapsed times, whatever the clock values
  and random draws, and a single call with the total elapsed time lowers it by the same
  amount. (Nothing here needs the elapsed times to be non-negative.)
\<close>

theorem orb_fall_linear:
  assumes "pools_ok (particleSystems gm)" and "valid_type (otype orb)"
  shows "\<exists>orb' gm' orb1 gm1.
           advance_orb steps orb gm = Some (orb', gm') \<and>
           y_of orb' = y_of orb - fallSpeed orb * sum_list (map fst steps) \<and>
           fallSpeed orb' = fallSpeed orb \<and>
           advance_orb [(sum_list (map fst steps), now, g)] orb gm = Some (orb1, gm1) \<and>
           y_of orb1 = y_of orb'"
proof -
  from advance_orb_ok [OF assms, of steps] obtain orb' gm' where
    a: "advance_orb steps orb gm = Some (orb', gm')"
       "y_of orb' = y_of orb - fallSpeed orb * sum_list (map fst steps)"
       "fallSpeed orb' = fallSpeed orb"
    by blast
  from advance_orb_ok [OF assms, of "[(sum_list (map fst steps), now, g)]"] obtain orb1 gm1 where
    b: "advance_orb [(sum_list (map fst steps), now, g)] orb gm = Some (orb1, gm1)"
       "y_of orb1 = y_of orb - fallSpeed orb * sum_list (map fst [(sum_list (map fst steps), now, g)])"
    by blast
  from b(2) a(2) have "y_of orb1 = y_of orb'" by simp
  with a b(1) show ?thesis by blast
qed

theorem orb_fall_linear_witness:
  "pools_ok (particleSystems demo_game) \<and> valid_type (otype (demo_orb AIR 400 200)) \<and>
   (\<exists>orb' gm'. advance_orb [(1, 0, zero_gen), (2, 5, zero_gen)] (demo_orb AIR 400 200) demo_game
        = Some (orb', gm') \<and> y_of orb' = - 100)"
proof -
  have p: "pools_ok (particleSystems demo_game)"
    using demo_game_ok by (rule game_ok_pools)
  have v: "valid_type (otype (demo_orb AIR 400 200))"
    by (simp add: demo_fields valid_type_def)
  from orb_fall_linear [OF p v, of "[(1, 0, zero_gen), (2, 5, zero_gen)]" 0 zero_gen]
  obtain orb' gm' where
    "advance_orb [(1, 0, zero_gen), (2, 5, zero_gen)] (demo_orb AIR 400 200) demo_game = Some (orb', gm')"
    "y_of orb' = y_of (demo_orb AIR 400 200) - fallSpeed (demo_orb AIR 400 200)
        * sum_list (map fst [(1, 0, zero_gen), (2::real, 5::real, zero_gen)])"
    by blast
  moreover have "y_of (demo_orb AIR 400 200) = 200" "fallSpeed (demo_orb AIR 400 200) = 100"
    by (simp_all add: y_of_def demo_orb_def Orb_new_def)
  ultimately show ?thesis using p v by simp
qed

subsection \<open>C2: thresholds are evaluated in the frame that reaches them\<close>

text \<open>
  C2. From any state whose element types are in range, \<open>update\<close> returns. If the game was
  running, the thresholds are tested once, on the state in which all of the frame's events
  (advance, off-screen removal, spawn, collisions, pool advance) have been applied; the
  test leaves the score alone, and the state returned by this very call is Won when that
  score is at least 100, Lost when it is at most -5, and Running otherwise. If the game
  was not running, no test is made: state and score are returned as they were.
\<close>

theorem threshold_same_frame:
  assumes "game_ok gm"
  shows "\<exists>gm' g'. update dt clock g gm = Some (gm', g') \<and>
     (currentState gm = RUNNING \<longrightarrow>
        (\<exists>gm1. frame_events dt clock g gm = Some (gm1, g') \<and> currentState gm1 = RUNNING \<and>
           gm' = checkThresholds gm1 \<and> score gm' = score gm1) \<and>
        (score gm' \<ge> 100 \<longrightarrow> currentState gm' = GAME_OVER_WIN) \<and>
        (score gm' \<le> - 5 \<longrightarrow> currentState gm' = GAME_OVER_LOSE) \<and>
        (- 5 < score gm' \<and> score gm' < 100 \<longrightarrow> currentState gm' = RUNNING)) \<and>
     (currentState gm \<noteq> RUNNING \<longrightarrow> currentState gm' = currentState gm \<and> score gm' = score gm)"
proof (cases "currentState gm = RUNNING")
  case True
  from frame_events_ok [OF assms, of dt clock g] obtain gm1 g1 where
    f: "frame_events dt clock g gm = Some (gm1, g1)" and s: "currentState gm1 = currentState gm"
    by blast
  from True f have u: "update dt clock g gm = Some (checkThresholds gm1, g1)"
    by (simp add: update_def)
  have sc: "score (checkThresholds gm1) = score gm1"
    by (simp add: checkThresholds_def Let_def)
  have w: "score gm1 \<ge> 100 \<longrightarrow> currentState (checkThresholds gm1) = GAME_OVER_WIN"
    by (simp add: checkThresholds_def Let_def)
  have l: "score gm1 \<le> - 5 \<longrightarrow> currentState (checkThresholds gm1) = GAME_OVER_LOSE"
    by (simp add: checkThresholds_def Let_def)
  have r: "- 5 < score gm1 \<and> score gm1 < 100 \<longrightarrow> currentState (checkThresholds gm1) = RUNNING"
    using s True by (simp add: checkThresholds_def Let_def)
  from True f u s sc w l r show ?thesis by simp
next
  case False
  then have "update dt clock g gm = Some (updateParticleSystems dt gm, g)"
    by (simp add: update_def)
  with False show ?thesis by (simp add: updateParticleSystems_def)
qed

theorem threshold_same_frame_witness:
  "game_ok near_win_game \<and> currentState near_win_game = RUNNING \<and> score near_win_game = 98 \<and>
   (\<exists>gm' g'. update 0 (\<lambda>_. 0) zero_gen near_win_game = Some (gm', g') \<and>
      score gm' = 103 \<and> currentState gm' = GAME_OVER_WIN \<and> fallingOrbs gm' = []) \<and>
   game_ok lost_game \<and> currentState lost_game \<noteq> RUNNING \<and>
   (\<exists>gm' g'. update 0 (\<lambda>_. 0) zero_gen lost_game = Some (gm', g') \<and>
      currentState gm' = GAME_OVER_LOSE \<and> score gm' = - 6)"
proof -
  have r: "currentState near_win_game = RUNNING" and s: "score near_win_game = 98"
    by (simp_all add: near_win_game_def Game_new_def)
  from threshold_same_frame [OF near_win_ok, of 0 "\<lambda>_. 0" zero_gen]
  obtain gm' g' where u: "update 0 (\<lambda>_. 0) zero_gen near_win_game = Some (gm', g')"
    and i: "currentState near_win_game = RUNNING \<longrightarrow>
        (\<exists>gm1. frame_events 0 (\<lambda>_. 0) zero_gen near_win_game = Some (gm1, g') \<and>
           currentState gm1 = RUNNING \<and> gm' = checkThresholds gm1 \<and> score gm' = score gm1) \<and>
        (score gm' \<ge> 100 \<longrightarrow> currentState gm' = GAME_OVER_WIN) \<and>
        (score gm' \<le> - 5 \<longrightarrow> currentState gm' = GAME_OVER_LOSE) \<and>
        (- 5 < score gm' \<and> score gm' < 100 \<longrightarrow> currentState gm' = RUNNING)"
    by blast
  from i r obtain gm1 where f: "frame_events 0 (\<lambda>_. 0) zero_gen near_win_game = Some (gm1, g')"
    and e: "gm' = checkThresholds gm1" and sc: "score gm' = score gm1"
    by blast
  from i r have w: "score gm' \<ge> 100 \<longrightarrow> currentState gm' = GAME_OVER_WIN"
    by blast
  from near_win_frame f have s1: "score gm1 = 103" by auto
  with sc w have st: "score gm' = 103" "currentState gm' = GAME_OVER_WIN" by simp_all
  from e s1 have "fallingOrbs gm' = []" by (simp add: checkThresholds_def Let_def)
  with u st have a: "\<exists>gm' g'. update 0 (\<lambda>_. 0) zero_gen near_win_game = Some (gm', g') \<and>
      score gm' = 103 \<and> currentState gm' = GAME_OVER_WIN \<and> fallingOrbs gm' = []"
    by blast
  have n: "currentState lost_game \<noteq> RUNNING" by (simp add: lost_game_fields)
  from threshold_same_frame [OF lost_game_ok, of 0 "\<lambda>_. 0" zero_gen] n
  have b: "\<exists>gm' g'. update 0 (\<lambda>_. 0) zero_gen lost_game = Some (gm', g') \<and>
      currentState gm' = GAME_OVER_LOSE \<and> score gm' = - 6"
    by (auto simp: lost_game_fields)
  from a b r s n near_win_ok lost_game_ok show ?thesis by simp
qed

subsection \<open>C4: reset\<close>

text \<open>
  C4. \<open>resetGame\<close> sets the score to 0, empties the list of orbs, sets the spawn timer to 0
  and the state to Running, puts the basket at abscissa 0 on its line above the bottom edge
  (where the constructor puts it) with type Earth, and leaves the particle pools untouched.
  In a terminal state no other operation changes the state: \<open>update\<close>, \<open>scrollCallback\<close> and
  \<open>setScreenDimensions\<close> keep it, and \<open>processInput\<close> either does nothing or, when R is
  held, is \<open>resetGame\<close>.
\<close>

theorem resetGame_effect:
  "score (resetGame gm) = 0 \<and> fallingOrbs (resetGame gm) = [] \<and>
   orbSpawnTimer (resetGame gm) = 0 \<and> currentState (resetGame gm) = RUNNING \<and>
   position (playerBasket (resetGame gm)) =
     (0, - (real_of_int (screenHeight gm) / 2) + 30 + basketBottomMargin gm, 0) \<and>
   currentType (playerBasket (resetGame gm)) = EARTH \<and>
   particleSystems (resetGame gm) = particleSystems gm \<and>
   playerBasket (resetGame (Game_new w h)) = playerBasket (Game_new w h) \<and>
   (currentState gm \<noteq> RUNNING \<longrightarrow>
      (\<exists>gm' g'. update dt clock g gm = Some (gm', g') \<and> currentState gm' = currentState gm) \<and>
      currentState (scrollCallback yoffset gm) = currentState gm \<and>
      currentState (setScreenDimensions w' h' gm) = currentState gm \<and>
      processInput keys dt' gm = (if key_R keys then resetGame gm else gm))"
proof -
  have a: "playerBasket (resetGame (Game_new w h)) = playerBasket (Game_new w h)"
    by (simp add: resetGame_def Game_new_def Basket_new_def)
  have b: "\<exists>gm' g'. update dt clock g gm = Some (gm', g') \<and> currentState gm' = currentState gm"
    if "currentState gm \<noteq> RUNNING"
    using that by (simp add: update_def updateParticleSystems_def)
  have c: "currentState (scrollCallback yoffset gm) = currentState gm"
    by (simp add: scrollCallback_def)
  have d: "currentState (setScreenDimensions w' h' gm) = currentState gm"
    by (simp add: setScreenDimensions_def Let_def)
  have e: "processInput keys dt' gm = (if key_R keys then resetGame gm else gm)"
    if "currentState gm \<noteq> RUNNING"
    using that by (simp add: processInput_def)
  have f: "score (resetGame gm) = 0 \<and> fallingOrbs (resetGame gm) = [] \<and>
   orbSpawnTimer (resetGame gm) = 0 \<and> currentState (resetGame gm) = RUNNING \<and>
   position (playerBasket (resetGame gm)) =
     (0, - (real_of_int (screenHeight gm) / 2) + 30 + basketBottomMargin gm, 0) \<and>
   currentType (playerBasket (resetGame gm)) = EARTH \<and>
   particleSystems (resetGame gm) = particleSystems gm"
    by (simp add: resetGame_def)
  from a b c d e f show ?thesis by blast
qed

theorem resetGame_effect_witness:
  "currentState lost_game \<noteq> RUNNING \<and>
   processInput key_R_held 0 lost_game = resetGame lost_game \<and>
   currentState (resetGame lost_game) = RUNNING \<and> score (resetGame lost_game) = 0 \<and>
   position (playerBasket (resetGame lost_game)) = (0, - 324, 0)"
proof -
  have n: "currentState lost_game \<noteq> RUNNING" by (simp add: lost_game_fields)
  from resetGame_effect [of lost_game 1024 768 0 "\<lambda>_. 0" zero_gen 0 0 0 key_R_held 0] n
  show ?thesis
    by (simp add: key_R_held_def lost_game_def Game_new_def)
qed

subsection \<open>C6: a frame in a terminal state\<close>

text \<open>
  C6. When the state is Lost or Won, \<open>update\<close> returns the game with each pool advanced
  and every other field (score, orbs, spawn timer, basket, state) as it was, and draws
  nothing from the random engine. Advancing replaces every slot of every pool by its
  \<open>Particle_update\<close>: an inactive slot stays as it is, so nothing is emitted; an active
  particle ages by \<open>dt\<close>, and either expires (its life now exceeds its duration) or stays
  active, moves by its velocity times \<open>dt\<close> and has its velocity damped by \<open>1 - dt / 2\<close>.
  The orbs were discarded on entry: a frame of a running game that ends in a terminal
  state ends with no orbs.
\<close>

theorem terminal_update:
  assumes "currentState gm \<noteq> RUNNING"
  shows "update dt clock g gm =
           Some (gm\<lparr>particleSystems := map (ParticleSystem_update dt) (particleSystems gm)\<rparr>, g) \<and>
         (\<forall>s. ParticleSystem_update dt s = s\<lparr>particles := map (Particle_update dt) (particles s)\<rparr>) \<and>
         (\<forall>p. active (Particle_update dt p) \<longrightarrow> active p) \<and>
         (\<forall>i < length (particleSystems gm). \<forall>j < length (particles (particleSystems gm ! i)).
            particles (map (ParticleSystem_update dt) (particleSystems gm) ! i) ! j =
              Particle_update dt (particles (particleSystems gm ! i) ! j)) \<and>
         (\<forall>p. \<not> active p \<longrightarrow> Particle_update dt p = p) \<and>
         (\<forall>p. active p \<longrightarrow>
            life (Particle_update dt p) = life p + dt \<and>
            active (Particle_update dt p) = (life p + dt \<le> duration p) \<and>
            p_position (Particle_update dt p) =
              (if life p + dt \<le> duration p then vadd (p_position p) (vscale (p_velocity p) dt)
               else p_position p) \<and>
            p_velocity (Particle_update dt p) =
              (if life p + dt \<le> duration p then vscale (p_velocity p) (1 - 0.5 * dt)
               else p_velocity p) \<and>
            duration (Particle_update dt p) = duration p \<and>
            p_color (Particle_update dt p) = p_color p \<and>
            p_size (Particle_update dt p) = p_size p) \<and>
         (game_ok gm0 \<and> currentState gm0 = RUNNING \<longrightarrow>
            (\<exists>gm1 g1. update dt clock g gm0 = Some (gm1, g1) \<and>
               (currentState gm1 \<noteq> RUNNING \<longrightarrow> fallingOrbs gm1 = [])))"
proof -
  have a: "update dt clock g gm =
      Some (gm\<lparr>particleSystems := map (ParticleSystem_update dt) (particleSystems gm)\<rparr>, g)"
    using assms by (simp add: update_def updateParticleSystems_def)
  have b: "\<forall>s. ParticleSystem_update dt s = s\<lparr>particles := map (Particle_update dt) (particles s)\<rparr>"
    by (simp add: ParticleSystem_update_def)
  have c: "\<forall>p. active (Particle_update dt p) \<longrightarrow> active p"
    using Particle_update_active by blast
  have s: "\<forall>i < length (particleSystems gm). \<forall>j < length (particles (particleSystems gm ! i)).
            particles (map (ParticleSystem_update dt) (particleSystems gm) ! i) ! j =
              Particle_update dt (particles (particleSystems gm ! i) ! j)"
    by (simp add: ParticleSystem_update_def)
  have i: "\<forall>p. \<not> active p \<longrightarrow> Particle_update dt p = p"
    by (simp add: Particle_update_def)
  have d: "\<exists>gm1 g1. update dt clock g gm0 = Some (gm1, g1) \<and>
               (currentState gm1 \<noteq> RUNNING \<longrightarrow> fallingOrbs gm1 = [])"
    if ok: "game_ok gm0" and r: "currentState gm0 = RUNNING"
  proof -
    from frame_events_ok [OF ok, of dt clock g] obtain gmf gf where
      f: "frame_events dt clock g gm0 = Some (gmf, gf)" and s: "currentState gmf = currentState gm0"
      by blast
    from r f have "update dt clock g gm0 = Some (checkThresholds gmf, gf)"
      by (simp add: update_def)
    moreover have "currentState (checkThresholds gmf) \<noteq> RUNNING \<longrightarrow>
        fallingOrbs (checkThresholds gmf) = []"
      using s r by (simp add: checkThresholds_def Let_def)
    ultimately show ?thesis by blast
  qed
  show ?thesis
  proof (intro conjI)
    show "\<forall>p. active p \<longrightarrow>
            life (Particle_update dt p) = life p + dt \<and>
            active (Particle_update dt p) = (life p + dt \<le> duration p) \<and>
            p_position (Particle_update dt p) =
              (if life p + dt \<le> duration p then vadd (p_position p) (vscale (p_velocity p) dt)
               else p_position p) \<and>
            p_velocity (Particle_update dt p) =
              (if life p + dt \<le> duration p then vscale (p_velocity p) (1 - 0.5 * dt)
               else p_velocity p) \<and>
            duration (Particle_update dt p) = duration p \<and>
            p_color (Particle_update dt p) = p_color p \<and>
            p_size (Particle_update dt p) = p_size p"
      using Particle_update_active_eq by blast
    show "game_ok gm0 \<and> currentState gm0 = RUNNING \<longrightarrow>
            (\<exists>gm1 g1. update dt clock g gm0 = Some (gm1, g1) \<and>
               (currentState gm1 \<noteq> RUNNING \<longrightarrow> fallingOrbs gm1 = []))"
      using d by blast
  qed (rule a b c s i)+
qed

theorem terminal_update_witness:
  "currentState fading_game \<noteq> RUNNING \<and> active (particles (particleSystems fading_game ! 0) ! 0) \<and>
   (\<exists>gm'. update (1 / 4) (\<lambda>_. 0) zero_gen fading_game = Some (gm', zero_gen) \<and>
      score gm' = - 6 \<and> fallingOrbs gm' = [] \<and> currentState gm' = GAME_OVER_LOSE \<and>
      playerBasket gm' = playerBasket fading_game \<and> orbSpawnTimer gm' = orbSpawnTimer fading_game \<and>
      active (particles (particleSystems gm' ! 0) ! 0) \<and>
      life (particles (particleSystems gm' ! 0) ! 0) = 1 / 4 \<and>
      p_position (particles (particleSystems gm' ! 0) ! 0) = (- 15 / 2, - 25 / 2, 0) \<and>
      p_velocity (particles (particleSystems gm' ! 0) ! 0) = (- 105 / 4, - 175 / 4, 0)) \<and>
   (\<exists>gm'. update 1 (\<lambda>_. 0) zero_gen fading_game = Some (gm', zero_gen) \<and>
      \<not> active (particles (particleSystems gm' ! 0) ! 0) \<and>
      life (particles (particleSystems gm' ! 0) ! 0) = 1)"
proof -
  have n: "currentState fading_game \<noteq> RUNNING" by (simp add: fading_game_fields)
  let ?p = "particles (particleSystems fading_game ! 0) ! 0"
  have p: "?p = \<lparr> p_position = (0, 0, 0), p_velocity = (- 30, - 50, 0), p_color = (0.4, 0.2, 0, 1),
       life = 0, duration = 0.5, p_size = 15, active = True \<rparr>"
    using spark_pool_eval by (simp add: fading_game_fields)
  have l: "0 < length (particleSystems fading_game)"
    "0 < length (particles (particleSystems fading_game ! 0))"
    using spark_pool_eval by (simp_all add: fading_game_fields)
  have ap: "active ?p" by (simp add: p)
  note t1 = terminal_update [OF n, of "1 / 4" "\<lambda>_. 0" zero_gen demo_game]
  note t2 = terminal_update [OF n, of 1 "\<lambda>_. 0" zero_gen demo_game]
  let ?g1 = "fading_game\<lparr>particleSystems := map (ParticleSystem_update (1 / 4)) (particleSystems fading_game)\<rparr>"
  let ?g2 = "fading_game\<lparr>particleSystems := map (ParticleSystem_update 1) (particleSystems fading_game)\<rparr>"
  note u1 = t1 [THEN conjunct1]
  note u2 = t2 [THEN conjunct1]
  note k1 = t1 [THEN conjunct2, THEN conjunct2, THEN conjunct2]
  note k2 = t2 [THEN conjunct2, THEN conjunct2, THEN conjunct2]
  from k1 [THEN conjunct1, rule_format, OF l]
  have s1: "particles (particleSystems ?g1 ! 0) ! 0 = Particle_update (1 / 4) ?p" by simp
  from k2 [THEN conjunct1, rule_format, OF l]
  have s2: "particles (particleSystems ?g2 ! 0) ! 0 = Particle_update 1 ?p" by simp
  note a1 = k1 [THEN conjunct2, THEN conjunct2, THEN conjunct1, rule_format, OF ap]
  note a2 = k2 [THEN conjunct2, THEN conjunct2, THEN conjunct1, rule_format, OF ap]
  have r1: "active (particles (particleSystems ?g1 ! 0) ! 0)"
    "life (particles (particleSystems ?g1 ! 0) ! 0) = 1 / 4"
    "p_position (particles (particleSystems ?g1 ! 0) ! 0) = (- 15 / 2, - 25 / 2, 0)"
    "p_velocity (particles (particleSystems ?g1 ! 0) ! 0) = (- 105 / 4, - 175 / 4, 0)"
    unfolding s1 using a1 by (simp_all add: p)
  have r2: "\<not> active (particles (particleSystems ?g2 ! 0) ! 0)"
    "life (particles (particleSystems ?g2 ! 0) ! 0) = 1"
    unfolding s2 using a2 by (simp_all add: p)
  have f1: "score ?g1 = - 6" "fallingOrbs ?g1 = []" "currentState ?g1 = GAME_OVER_LOSE"
    "playerBasket ?g1 = playerBasket fading_game" "orbSpawnTimer ?g1 = orbSpawnTimer fading_game"
    by (simp_all add: fading_game_fields)
  from n ap u1 u2 r1 r2 f1 show ?thesis by simp
qed

subsection \<open>C10: element types used as indices\<close>

text \<open>
  C10, as stated, has every lookup with an out-of-range element type stopped by a
  defensive check. In \<open>bad_game\<close> an orb of type 7 lies on the basket:
  \<open>checkCollisions\<close> takes the type as index into the four pools with no test - the index
  is outside the vector, and the result is the undefined behaviour \<open>None\<close>; and
  \<open>Orb::update\<close> calls \<open>emit\<close> through the null pointer that \<open>getParticleSystem\<close>
  returns, without testing it: undefined behaviour again, not a failure the code reports.
\<close>

theorem unchecked_lookup_counterexample:
  "\<not> valid_type (otype bad_orb) \<and> fallingOrbs bad_game = [bad_orb] \<and>
   hits (playerBasket bad_game) bad_orb \<and>
   pool_index (particleSystems bad_game) (otype bad_orb) = None \<and>
   checkCollisions zero_gen bad_game = None \<and>
   getParticleSystem bad_game (otype bad_orb) = None \<and>
   Orb_update 1 0 zero_gen bad_orb bad_game = None"
proof -
  have v: "\<not> valid_type (otype bad_orb)" by (simp add: bad_game_fields valid_type_def)
  have p: "pool_index (particleSystems bad_game) (otype bad_orb) = None"
    by (simp add: pool_index_def bad_game_fields)
  have c: "checkCollisions zero_gen bad_game = None"
    using collide_orbs_unchecked [OF v bad_game_fields(4) bad_game_fields(3), of zero_gen "[]"]
    by (simp add: checkCollisions_def bad_game_fields)
  have n: "getParticleSystem bad_game (otype bad_orb) = None"
    by (simp add: getParticleSystem_def bad_game_fields)
  have u: "Orb_update 1 0 zero_gen bad_orb bad_game = None"
    using v by (rule Orb_update_null) (simp add: bad_game_fields)
  from v p c n u bad_game_fields(2,4) show ?thesis by simp
qed

text \<open>
  C10, amended. \<open>getParticleSystem\<close> is the one lookup with a range check: for a value
  outside the enumeration it returns the null pointer without indexing the vector of
  pools, and for a value inside it returns the pool at that index, which is below 4.
  Nothing fails fast after it or beside it: \<open>Orb::update\<close> calls \<open>emit\<close> through the
  pointer untested, and \<open>checkCollisions\<close> indexes the vector with the orb's type
  unchecked, so on both paths a type outside the enumeration is undefined behaviour. No
  such type occurs there: the game built by the constructor has four pools and only
  in-range element types, and every operation keeps that, so a frame (\<open>update\<close>, and
  \<open>checkCollisions\<close> in it) always returns a result, and so do input handling, scrolling,
  resizing and reset.
\<close>

theorem element_index_in_range:
  "(\<not> valid_type t \<longrightarrow> getParticleSystem gm t = None) \<and>
   (valid_type t \<longrightarrow> getParticleSystem gm t = Some (nat t) \<and> nat t < 4) \<and>
   (\<not> valid_type (otype orb) \<and> particleEmitTimer orb + dt \<ge> particleEmitInterval orb \<longrightarrow>
      Orb_update dt now g orb gm = None) \<and>
   (\<not> valid_type (otype orb) \<and> hits (playerBasket gm) orb \<and> length (particleSystems gm) = 4 \<longrightarrow>
      collide_orbs g (orb # rest) gm = None) \<and>
   game_ok (Game_new w h) \<and>
   (game_ok gm \<longrightarrow>
      (\<forall>orb \<in> set (fallingOrbs gm). valid_type (otype orb)) \<and>
      valid_type (currentType (playerBasket gm)) \<and>
      length (particleSystems gm) = 4 \<and>
      (\<exists>gm' g'. update dt clock g gm = Some (gm', g') \<and> game_ok gm') \<and>
      (\<exists>gm' g'. checkCollisions g gm = Some (gm', g') \<and> game_ok gm') \<and>
      game_ok (processInput keys dt' gm) \<and> game_ok (scrollCallback yoffset gm) \<and>
      game_ok (setScreenDimensions w' h' gm) \<and> game_ok (resetGame gm))"
proof -
  have a: "\<not> valid_type t \<longrightarrow> getParticleSystem gm t = None"
    by (auto simp: getParticleSystem_def valid_type_def)
  have b: "valid_type t \<longrightarrow> getParticleSystem gm t = Some (nat t) \<and> nat t < 4"
    by (auto simp: getParticleSystem_def valid_type_def)
  have c: "(\<forall>orb \<in> set (fallingOrbs gm). valid_type (otype orb)) \<and>
      valid_type (currentType (playerBasket gm)) \<and> length (particleSystems gm) = 4"
    if "game_ok gm" using that by (simp add: game_ok_def list_all_iff)
  have d: "\<exists>gm' g'. checkCollisions g gm = Some (gm', g') \<and> game_ok gm'" if "game_ok gm"
    using checkCollisions_ok [OF that, of g] by blast
  have e: "game_ok (processInput keys dt' gm) \<and> game_ok (scrollCallback yoffset gm) \<and>
      game_ok (setScreenDimensions w' h' gm) \<and> game_ok (resetGame gm)" if "game_ok gm"
    using that by (simp add: processInput_ok scrollCallback_ok setScreenDimensions_ok resetGame_ok)
  have f: "\<exists>gm' g'. update dt clock g gm = Some (gm', g') \<and> game_ok gm'" if "game_ok gm"
    using that by (rule update_ok)
  show ?thesis
  proof (intro conjI impI)
    show "\<not> valid_type t \<Longrightarrow> getParticleSystem gm t = None" using a by simp
    show "valid_type t \<Longrightarrow> getParticleSystem gm t = Some (nat t)" using b by simp
    show "valid_type t \<Longrightarrow> nat t < 4" using b by simp
    show "game_ok (Game_new w h)" by (rule new_game_ok)
    show "Orb_update dt now g orb gm = None"
      if "\<not> valid_type (otype orb) \<and> particleEmitTimer orb + dt \<ge> particleEmitInterval orb"
      using that by (simp add: Orb_update_null)
    show "collide_orbs g (orb # rest) gm = None"
      if "\<not> valid_type (otype orb) \<and> hits (playerBasket gm) orb \<and> length (particleSystems gm) = 4"
      using that collide_orbs_unchecked [of orb gm g rest] by blast
  qed (use c d e f in simp_all)
qed

theorem element_index_in_range_witness:
  "\<not> valid_type 7 \<and> getParticleSystem demo_game 7 = None \<and>
   valid_type FIRE \<and> getParticleSystem demo_game FIRE = Some 2 \<and>
   \<not> valid_type (otype bad_orb) \<and> hits (playerBasket bad_game) bad_orb \<and>
   length (particleSystems bad_game) = 4 \<and> collide_orbs zero_gen [bad_orb] bad_game = None \<and>
   game_ok demo_game \<and>
   (\<exists>gm' g'. update 0 (\<lambda>_. 0) zero_gen demo_game = Some (gm', g') \<and> game_ok gm')"
proof -
  have n: "\<not> valid_type 7" and v: "valid_type FIRE" by (simp_all add: valid_type_def)
  have nb: "\<not> valid_type (otype bad_orb)" by (simp add: bad_game_fields valid_type_def)
  from element_index_in_range [where t = 7 and gm = demo_game] n
  have a: "getParticleSystem demo_game 7 = None" by blast
  from element_index_in_range [where t = FIRE and gm = demo_game] v
  have b: "getParticleSystem demo_game FIRE = Some 2" by simp
  from element_index_in_range [where gm = demo_game and dt = 0 and clock = "\<lambda>_. 0" and g = zero_gen]
    demo_game_ok
  have c: "\<exists>gm' g'. update 0 (\<lambda>_. 0) zero_gen demo_game = Some (gm', g') \<and> game_ok gm'"
    by blast
  from element_index_in_range [where gm = bad_game and orb = bad_orb and g = zero_gen and rest = "[]"]
    nb bad_game_fields(3,4)
  have d: "collide_orbs zero_gen [bad_orb] bad_game = None" by blast
  from n v nb a b c d demo_game_ok bad_game_fields(3,4) show ?thesis by simp
qed

end
